theory Spec2Isabelle
  imports Main "HOL-Library.Word" "HOL-Library.AList"
begin

section \<open>Domain controller: shared data model\<close>

text \<open>
  The development embeds the parts of \<^verbatim>\<open>domain-server/src/DomainServer.cpp\<close> that the
  properties below talk about. Pointers to nodes are their UUIDs (unique in the live registry),
  pointers to assignments are addresses into an explicit store, because the all-assignments
  index and the unfulfilled queue share the assignment objects.
\<close>

type_synonym QUuid = "128 word"

text \<open>\<^verbatim>\<open>QUuid::isNull()\<close>: the default-constructed UUID is all zero.\<close>

definition isNull :: "QUuid \<Rightarrow> bool" where
  "isNull u = (u = 0)"

text \<open>
  Modelled from the spec: the declaration of \<^verbatim>\<open>NodeType_t\<close> lives in the networking library;
  the constructors are the closed set of node types of section 3 of the specification.
\<close>

datatype NodeType_t =
    Agent | AudioMixer | AvatarMixer | EntityServer | AssetServer | MessagesMixer
  | EntityScriptServer | UpstreamAudioMixer | UpstreamAvatarMixer
  | DownstreamAudioMixer | DownstreamAvatarMixer

text \<open>
  The fields of \<^verbatim>\<open>DomainServerNodeData\<close> that \<^verbatim>\<open>DomainServer.cpp\<close> reads and writes.
  The session-secret hash is an association list keyed by the peer's UUID.
\<close>

record DomainServerNodeData =
  nodeInterestSet :: "NodeType_t set"
  sessionSecretHash :: "(QUuid \<times> QUuid) list"
  assignmentUUID :: QUuid
  wasAssigned :: bool
  isAuthenticated :: bool
  placeName :: string

text \<open>A node of the registry; \<open>linkedData = None\<close> is the null linked-data pointer.\<close>

record Node =
  uuid :: QUuid
  nodeType :: NodeType_t
  linkedData :: "DomainServerNodeData option"
  activeSocket :: bool

section \<open>Counting connected users\<close>

text \<open>
  \<^verbatim>\<open>countConnectedUsers\<close>: \<^verbatim>\<open>eachNode\<close> visits every live node and the lambda increments an
  \<^verbatim>\<open>unsigned int\<close>, so the counter is a 32-bit word.
\<close>

fun countConnectedUsers_each :: "Node list \<Rightarrow> 32 word \<Rightarrow> 32 word" where
  "countConnectedUsers_each [] result = result"
| "countConnectedUsers_each (node # rest) result =
     countConnectedUsers_each rest
       (if nodeType node = Agent then
          (case linkedData node of
             None \<Rightarrow> result
           | Some nodeData \<Rightarrow> if \<not> wasAssigned nodeData then result + 1 else result)
        else result)"

definition countConnectedUsers :: "Node list \<Rightarrow> 32 word" where
  "countConnectedUsers nodeList = countConnectedUsers_each nodeList 0"

text \<open>An unassigned Agent: a user.\<close>

definition isUnassignedAgent :: "Node \<Rightarrow> bool" where
  "isUnassignedAgent node =
     (nodeType node = Agent \<and>
      (case linkedData node of None \<Rightarrow> False | Some nodeData \<Rightarrow> \<not> wasAssigned nodeData))"

section \<open>Registry, assignments and the packets sent\<close>

text \<open>
  Modelled from the spec: the declaration of \<^verbatim>\<open>Assignment::Type\<close> lives in the networking
  library. The constructors are the worker kinds of section 1 of the specification, the
  scripted agent, and the wildcard \<open>AllTypes\<close> a requester may ask for.
\<close>

datatype AssignmentType =
    AudioMixerType | AvatarMixerType | AgentType | AssetServerType | MessagesMixerType
  | EntityScriptServerType | EntityServerType | AllTypes

record Assignment =
  assignmentUuid :: QUuid
  assignmentType :: AssignmentType
  pool :: string
  payload :: string
  isStatic :: bool
  walletUUID :: QUuid
  nodeVersion :: string

type_synonym ptr = nat

type_synonym HifiSockAddr = "32 word \<times> 16 word"

text \<open>
  The datagrams the modelled handlers send: a \<^verbatim>\<open>DomainList\<close> to a node with one segment
  (peer, secret) per listed peer, a \<^verbatim>\<open>DomainServerAddedNode\<close> to a node about an added node
  with their secret, a \<^verbatim>\<open>CreateAssignment\<close> to a socket.
\<close>

datatype Packet =
    DomainList QUuid "(QUuid \<times> QUuid) list"
  | DomainServerAddedNode QUuid QUuid QUuid
  | CreateAssignment HifiSockAddr Assignment

text \<open>What the gatekeeper remembers about a handed-out deployment.\<close>

record PendingAssignedNodeData =
  pendingAssignmentUUID :: QUuid
  pendingWalletUUID :: QUuid
  pendingNodeVersion :: string

text \<open>
  The part of the controller's state the registry and the assignment queue work on.
  \<open>assignmentStore\<close> holds the shared assignment objects, \<open>scriptFiles\<close> the files of the
  scripts directory by the UUID that names them, \<open>uuidsCreated\<close> how many UUIDs
  \<^verbatim>\<open>QUuid::createUuid\<close> has handed out.
\<close>

record DomainServer =
  nodeList :: "Node list"
  assignmentStore :: "ptr \<Rightarrow> Assignment"
  allAssignments :: "(QUuid \<times> ptr) list"
  unfulfilledAssignments :: "ptr list"
  pendingAssignedNodes :: "(QUuid \<times> PendingAssignedNodeData) list"
  scriptFiles :: "(QUuid \<times> string) list"
  sentPackets :: "Packet list"
  uuidsCreated :: nat

text \<open>\<^verbatim>\<open>QUuid::createUuid\<close>: \<open>gen k\<close> is the \<open>k\<close>-th random UUID.\<close>

definition createUuid :: "(nat \<Rightarrow> QUuid) \<Rightarrow> DomainServer \<Rightarrow> QUuid \<times> DomainServer" where
  "createUuid gen st = (gen (uuidsCreated st), st\<lparr>uuidsCreated := Suc (uuidsCreated st)\<rparr>)"

definition sendPacket :: "Packet \<Rightarrow> DomainServer \<Rightarrow> DomainServer" where
  "sendPacket pkt st = st\<lparr>sentPackets := sentPackets st @ [pkt]\<rparr>"

subsection \<open>Node lookup\<close>

definition nodeWithUUID :: "Node list \<Rightarrow> QUuid \<Rightarrow> Node option" where
  "nodeWithUUID nodes u = List.find (\<lambda>n. uuid n = u) nodes"

text \<open>The linked data behind a node pointer, if the node is live and has any.\<close>

definition nodeDataOf :: "Node list \<Rightarrow> QUuid \<Rightarrow> DomainServerNodeData option" where
  "nodeDataOf nodes u =
     (case nodeWithUUID nodes u of None \<Rightarrow> None | Some n \<Rightarrow> linkedData n)"

text \<open>A write through a node pointer into its linked data.\<close>

definition modifyNodeData ::
  "QUuid \<Rightarrow> (DomainServerNodeData \<Rightarrow> DomainServerNodeData) \<Rightarrow> Node list \<Rightarrow> Node list" where
  "modifyNodeData u f nodes =
     map (\<lambda>n. if uuid n = u then n\<lparr>linkedData := map_option f (linkedData n)\<rparr> else n) nodes"

text \<open>\<^verbatim>\<open>isInInterestSet(nodeA, nodeB)\<close>.\<close>

definition isInInterestSet :: "Node list \<Rightarrow> QUuid \<Rightarrow> QUuid \<Rightarrow> bool" where
  "isInInterestSet nodes a b =
     (case nodeDataOf nodes a of
        None \<Rightarrow> False
      | Some nodeAData \<Rightarrow>
         (case nodeWithUUID nodes b of
            None \<Rightarrow> False
          | Some nodeB \<Rightarrow> nodeType nodeB \<in> nodeInterestSet nodeAData))"

subsection \<open>Pairwise session secrets\<close>

text \<open>
  \<^verbatim>\<open>connectionSecretForNodes\<close>. \<^verbatim>\<open>operator[]\<close> yields a reference to the entry for B in A's
  hash (a null UUID if there was none); if it is null a new UUID is written through the
  reference and inserted into B's hash under A. Without linked data on either side the null
  UUID is returned.
\<close>

definition connectionSecretForNodes ::
  "(nat \<Rightarrow> QUuid) \<Rightarrow> QUuid \<Rightarrow> QUuid \<Rightarrow> DomainServer \<Rightarrow> QUuid \<times> DomainServer" where
  "connectionSecretForNodes gen a b st =
     (case nodeDataOf (nodeList st) a of
        None \<Rightarrow> (0, st)
      | Some nodeAData \<Rightarrow>
         (case nodeDataOf (nodeList st) b of
            None \<Rightarrow> (0, st)
          | Some nodeBData \<Rightarrow>
             (let secretUUID = (case map_of (sessionSecretHash nodeAData) b of
                                  None \<Rightarrow> 0 | Some v \<Rightarrow> v)
              in if isNull secretUUID then
                   (let (newSecret, st1) = createUuid gen st;
                        nodes1 = modifyNodeData a
                          (\<lambda>d. d\<lparr>sessionSecretHash := AList.update b newSecret (sessionSecretHash d)\<rparr>)
                          (nodeList st1);
                        nodes2 = modifyNodeData b
                          (\<lambda>d. d\<lparr>sessionSecretHash := AList.update a newSecret (sessionSecretHash d)\<rparr>)
                          nodes1
                    in (newSecret, st1\<lparr>nodeList := nodes2\<rparr>))
                 else (secretUUID, st))))"

subsection \<open>Domain list and added-node broadcast\<close>

text \<open>
  The \<^verbatim>\<open>eachNode\<close> loop of \<^verbatim>\<open>sendDomainListToNode\<close>: one segment for every other node whose
  type is in the receiver's interest set.
\<close>

fun domainListSegments ::
  "(nat \<Rightarrow> QUuid) \<Rightarrow> QUuid \<Rightarrow> QUuid list \<Rightarrow> DomainServer \<Rightarrow> (QUuid \<times> QUuid) list \<times> DomainServer" where
  "domainListSegments gen u [] st = ([], st)"
| "domainListSegments gen u (other # rest) st =
     (if other \<noteq> u \<and> isInInterestSet (nodeList st) u other then
        (let (secret, st1) = connectionSecretForNodes gen u other st;
             (segments, st2) = domainListSegments gen u rest st1
         in ((other, secret) # segments, st2))
      else domainListSegments gen u rest st)"

text \<open>
  \<^verbatim>\<open>sendDomainListToNode\<close>. The linked data is dereferenced unchecked: \<open>None\<close> is that null
  dereference. A list is sent in every other case, empty if there is nothing to tell.
\<close>

definition sendDomainListToNode :: "(nat \<Rightarrow> QUuid) \<Rightarrow> QUuid \<Rightarrow> DomainServer \<Rightarrow> DomainServer option" where
  "sendDomainListToNode gen u st =
     (case nodeDataOf (nodeList st) u of
        None \<Rightarrow> None
      | Some nodeData \<Rightarrow>
         (let (segments, st1) =
                (if nodeInterestSet nodeData \<noteq> {} \<and> isAuthenticated nodeData
                 then domainListSegments gen u (map uuid (nodeList st)) st
                 else ([], st))
          in Some (sendPacket (DomainList u segments) st1)))"

text \<open>
  \<^verbatim>\<open>processListRequestPacket\<close>: the declared interest list is stored, without \<open>Agent\<close> if the
  sender is an Agent, then the domain list is sent. (The socket update is not modelled.)
\<close>

definition processListRequestPacket ::
  "(nat \<Rightarrow> QUuid) \<Rightarrow> QUuid \<Rightarrow> NodeType_t list \<Rightarrow> string \<Rightarrow> DomainServer \<Rightarrow> DomainServer option" where
  "processListRequestPacket gen u interestList place st =
     (case nodeWithUUID (nodeList st) u of
        None \<Rightarrow> None
      | Some sendingNode \<Rightarrow>
         (case linkedData sendingNode of
            None \<Rightarrow> None
          | Some nodeData \<Rightarrow>
             (let safeInterestSet =
                    (if nodeType sendingNode = Agent then set interestList - {Agent}
                     else set interestList)
              in sendDomainListToNode gen u
                   (st\<lparr>nodeList := modifyNodeData u
                          (\<lambda>d. d\<lparr>nodeInterestSet := safeInterestSet, placeName := place\<rparr>)
                          (nodeList st)\<rparr>))))"

text \<open>
  \<^verbatim>\<open>broadcastNewNode\<close>: every node with linked data and an active socket, other than the added
  node, whose interest set holds the added node's type gets a \<^verbatim>\<open>DomainServerAddedNode\<close>.
\<close>

fun broadcastNewNode_each ::
  "(nat \<Rightarrow> QUuid) \<Rightarrow> QUuid \<Rightarrow> Node list \<Rightarrow> DomainServer \<Rightarrow> DomainServer" where
  "broadcastNewNode_each gen added [] st = st"
| "broadcastNewNode_each gen added (node # rest) st =
     (if linkedData node \<noteq> None \<and> activeSocket node \<and> uuid node \<noteq> added
         \<and> isInInterestSet (nodeList st) (uuid node) added then
        (let (secret, st1) = connectionSecretForNodes gen (uuid node) added st
         in broadcastNewNode_each gen added rest
              (sendPacket (DomainServerAddedNode (uuid node) added secret) st1))
      else broadcastNewNode_each gen added rest st)"

definition broadcastNewNode :: "(nat \<Rightarrow> QUuid) \<Rightarrow> QUuid \<Rightarrow> DomainServer \<Rightarrow> DomainServer" where
  "broadcastNewNode gen added st = broadcastNewNode_each gen added (nodeList st) st"

text \<open>
  \<^verbatim>\<open>handleConnectedNode\<close>: the new node gets its domain list, then it is broadcast. (The
  \<^verbatim>\<open>userConnected\<close> signal and the replication flag are not modelled.)
\<close>

definition handleConnectedNode :: "(nat \<Rightarrow> QUuid) \<Rightarrow> QUuid \<Rightarrow> DomainServer \<Rightarrow> DomainServer option" where
  "handleConnectedNode gen newNode st =
     map_option (broadcastNewNode gen newNode) (sendDomainListToNode gen newNode st)"

subsection \<open>Assignment queue\<close>

text \<open>
  The loop of \<^verbatim>\<open>deployableAssignmentForRequest\<close>: \<open>visited\<close> are the entries the iterator has
  passed. The first match is taken out and enqueued at the back.
\<close>

fun deployableWalk ::
  "(ptr \<Rightarrow> Assignment) \<Rightarrow> Assignment \<Rightarrow> ptr list \<Rightarrow> ptr list \<Rightarrow> (ptr \<times> ptr list) option" where
  "deployableWalk store requestAssignment visited [] = None"
| "deployableWalk store requestAssignment visited (sharedAssignment # rest) =
     (let assignment = store sharedAssignment;
          requestIsAllTypes = (assignmentType requestAssignment = AllTypes);
          assignmentTypesMatch = (assignmentType assignment = assignmentType requestAssignment);
          neitherHasPool = (pool assignment = [] \<and> pool requestAssignment = []);
          assignmentPoolsMatch = (pool assignment = pool requestAssignment)
      in if (requestIsAllTypes \<or> assignmentTypesMatch) \<and> (neitherHasPool \<or> assignmentPoolsMatch)
         then Some (sharedAssignment, visited @ rest @ [sharedAssignment])
         else deployableWalk store requestAssignment (visited @ [sharedAssignment]) rest)"

definition deployableAssignmentForRequest ::
  "Assignment \<Rightarrow> DomainServer \<Rightarrow> ptr option \<times> DomainServer" where
  "deployableAssignmentForRequest requestAssignment st =
     (case deployableWalk (assignmentStore st) requestAssignment [] (unfulfilledAssignments st) of
        None \<Rightarrow> (None, st)
      | Some (deployableAssignment, queue) \<Rightarrow>
          (Some deployableAssignment, st\<lparr>unfulfilledAssignments := queue\<rparr>))"

text \<open>
  Modelled from the spec: \<^verbatim>\<open>DomainGatekeeper::addPendingAssignedNode\<close> is not part of this
  file; it records \<open>pending_assigned_nodes[clone.uuid] = original\<close>, here the original's UUID
  with the requester's wallet and version, as the call passes them.
\<close>

definition addPendingAssignedNode ::
  "QUuid \<Rightarrow> QUuid \<Rightarrow> QUuid \<Rightarrow> string \<Rightarrow> DomainServer \<Rightarrow> DomainServer" where
  "addPendingAssignedNode nodeUUID assignmentUUID' walletUUID' nodeVersion' st =
     st\<lparr>pendingAssignedNodes :=
          AList.update nodeUUID
            \<lparr>pendingAssignmentUUID = assignmentUUID', pendingWalletUUID = walletUUID',
             pendingNodeVersion = nodeVersion'\<rparr>
            (pendingAssignedNodes st)\<rparr>"

text \<open>
  \<^verbatim>\<open>processRequestAssignmentPacket\<close>. \<open>isInSubnet\<close> is Qt's \<^verbatim>\<open>QHostAddress::isInSubnet\<close>,
  \<open>whitelist\<close> the configured \<^verbatim>\<open>_acSubnetWhitelist\<close>. (The two one-time log lines are not
  modelled.)
\<close>

definition processRequestAssignmentPacket ::
  "(32 word \<Rightarrow> 'subnet \<Rightarrow> bool) \<Rightarrow> 'subnet list \<Rightarrow> (nat \<Rightarrow> QUuid) \<Rightarrow>
   Assignment \<Rightarrow> HifiSockAddr \<Rightarrow> DomainServer \<Rightarrow> DomainServer" where
  "processRequestAssignmentPacket isInSubnet whitelist gen requestAssignment senderSockAddr st =
     (if List.find (isInSubnet (fst senderSockAddr)) whitelist = None then st
      else
        (case deployableAssignmentForRequest requestAssignment st of
           (None, st1) \<Rightarrow> st1
         | (Some assignmentToDeploy, st1) \<Rightarrow>
            (let (newUUID, st2) = createUuid gen st1;
                 uniqueAssignment = (assignmentStore st2 assignmentToDeploy)\<lparr>assignmentUuid := newUUID\<rparr>;
                 st3 = sendPacket (CreateAssignment senderSockAddr uniqueAssignment) st2
             in addPendingAssignedNode (assignmentUuid uniqueAssignment)
                  (assignmentUuid (assignmentStore st3 assignmentToDeploy))
                  (walletUUID requestAssignment) (nodeVersion requestAssignment) st3)))"

text \<open>
  \<^verbatim>\<open>QFile::rename\<close> on the scripts directory: it fails, changing nothing, if the old file is
  missing or the new name is taken.
\<close>

definition renameScript :: "QUuid \<Rightarrow> QUuid \<Rightarrow> (QUuid \<times> string) list \<Rightarrow> (QUuid \<times> string) list" where
  "renameScript oldUUID newUUID files =
     (case map_of files oldUUID of
        None \<Rightarrow> files
      | Some content \<Rightarrow>
          if map_of files newUUID \<noteq> None then files
          else AList.update newUUID content (AList.delete oldUUID files))"

text \<open>\<^verbatim>\<open>refreshStaticAssignmentAndAddToQueue\<close>; \<^verbatim>\<open>resetUUID\<close> draws a new UUID.\<close>

definition refreshStaticAssignmentAndAddToQueue ::
  "(nat \<Rightarrow> QUuid) \<Rightarrow> ptr \<Rightarrow> DomainServer \<Rightarrow> DomainServer" where
  "refreshStaticAssignmentAndAddToQueue gen assignment st =
     (let oldUUID = assignmentUuid (assignmentStore st assignment);
          (newUUID, st1) = createUuid gen st;
          st2 = st1\<lparr>assignmentStore :=
                      (assignmentStore st1)
                        (assignment := (assignmentStore st1 assignment)\<lparr>assignmentUuid := newUUID\<rparr>)\<rparr>;
          st3 = (if assignmentType (assignmentStore st2 assignment) = AgentType
                    \<and> payload (assignmentStore st2 assignment) = []
                 then st2\<lparr>scriptFiles := renameScript oldUUID newUUID (scriptFiles st2)\<rparr>
                 else st2)
      in st3\<lparr>allAssignments := AList.update newUUID assignment (allAssignments st3),
              unfulfilledAssignments := unfulfilledAssignments st3 @ [assignment]\<rparr>)"

text \<open>
  The last loop of \<^verbatim>\<open>nodeKilled\<close>: for every key of the dead node's secret hash that is a
  live node, the dead node's entry is removed from that node's hash. The other node's linked
  data is dereferenced unchecked (\<open>None\<close>).
\<close>

fun cleanupConnectionSecrets :: "QUuid \<Rightarrow> QUuid list \<Rightarrow> Node list \<Rightarrow> Node list option" where
  "cleanupConnectionSecrets dead [] nodes = Some nodes"
| "cleanupConnectionSecrets dead (otherNodeSessionUUID # rest) nodes =
     (case nodeWithUUID nodes otherNodeSessionUUID of
        None \<Rightarrow> cleanupConnectionSecrets dead rest nodes
      | Some otherNode \<Rightarrow>
         (case linkedData otherNode of
            None \<Rightarrow> None
          | Some d \<Rightarrow>
              cleanupConnectionSecrets dead rest
                (modifyNodeData otherNodeSessionUUID
                   (\<lambda>d. d\<lparr>sessionSecretHash := AList.delete dead (sessionSecretHash d)\<rparr>) nodes)))"

text \<open>
  \<^verbatim>\<open>nodeKilled\<close>, called with the node that has just left the registry. (The ICE peer removal,
  the statistics override and the \<^verbatim>\<open>userDisconnected\<close> signal are not modelled.)
\<close>

definition nodeKilled :: "(nat \<Rightarrow> QUuid) \<Rightarrow> Node \<Rightarrow> DomainServer \<Rightarrow> DomainServer option" where
  "nodeKilled gen node st =
     (case linkedData node of
        None \<Rightarrow> Some st
      | Some nodeData \<Rightarrow>
         (let st1 =
                (if \<not> isNull (assignmentUUID nodeData) then
                   (case map_of (allAssignments st) (assignmentUUID nodeData) of
                      None \<Rightarrow> st
                    | Some matchedAssignment \<Rightarrow>
                       (let st' = st\<lparr>allAssignments :=
                                       AList.delete (assignmentUUID nodeData) (allAssignments st)\<rparr>
                        in if isStatic (assignmentStore st' matchedAssignment)
                           then refreshStaticAssignmentAndAddToQueue gen matchedAssignment st'
                           else st'))
                 else st)
          in map_option (\<lambda>nodes. st1\<lparr>nodeList := nodes\<rparr>)
               (cleanupConnectionSecrets (uuid node)
                  (map fst (sessionSecretHash nodeData)) (nodeList st1))))"

text \<open>
  Modelled from the spec: the registry operations \<open>add\<close> and \<open>remove\<close> belong to the
  networking library. \<open>add\<close> inserts the node and emits node-added, which \<^verbatim>\<open>nodeAdded\<close>
  answers by attaching fresh linked data; \<open>remove\<close> evicts the node and emits node-killed.
\<close>

definition newNodeData :: DomainServerNodeData where
  "newNodeData =
     \<lparr>nodeInterestSet = {}, sessionSecretHash = [], assignmentUUID = 0,
      wasAssigned = False, isAuthenticated = True, placeName = []\<rparr>"

definition nodeAdded :: "Node \<Rightarrow> DomainServer \<Rightarrow> DomainServer" where
  "nodeAdded node st =
     st\<lparr>nodeList := nodeList st @ [node\<lparr>linkedData := Some newNodeData\<rparr>]\<rparr>"

definition killNodeWithUUID :: "(nat \<Rightarrow> QUuid) \<Rightarrow> QUuid \<Rightarrow> DomainServer \<Rightarrow> DomainServer option" where
  "killNodeWithUUID gen u st =
     (case nodeWithUUID (nodeList st) u of
        None \<Rightarrow> Some st
      | Some node \<Rightarrow>
          nodeKilled gen node (st\<lparr>nodeList := filter (\<lambda>n. uuid n \<noteq> u) (nodeList st)\<rparr>))"

section \<open>ICE-server heartbeat engine\<close>

text \<open>
  The candidate addresses are the sanitised IPv4 results of the host lookup, so an address is a
  32-bit word. \<open>iceServerSocket = None\<close> is the cleared socket: the socket is only ever set to
  a resolved address with the non-zero default ICE port, so \<^verbatim>\<open>_iceServerSocket.isNull()\<close> and
  \<^verbatim>\<open>_iceServerSocket.getAddress().isNull()\<close> coincide.
\<close>

type_synonym QHostAddress = "32 word"

text \<open>
  What the engine does to the outside world, in order: a keypair regeneration request to the
  account manager, a PUT of \<^verbatim>\<open>ice_server_address\<close> to the metaverse API (the literal
  \<^verbatim>\<open>"0.0.0.0"\<close> is the address \<open>0\<close>), a heartbeat datagram, a host lookup.
\<close>

datatype IceEvent =
    GenerateNewDomainKeypair
  | MetaverseAddressPut QHostAddress
  | HeartbeatSent QHostAddress
  | HostLookup

record IceState =
  iceServerSocket :: "QHostAddress option"
  iceServerAddresses :: "QHostAddress list"
  failedIceServerAddresses :: "QHostAddress set"
  noReplyICEHeartbeats :: int
  numHeartbeatDenials :: int
  connectedToICEServer :: bool
  hasPrivateKey :: bool
  sessionUUID :: QUuid
  sendICEServerAddressInProgress :: bool
  sendICEServerAddressRedo :: bool
  iceAddressLookupPending :: bool
  randomDraws :: nat
  iceEvents :: "IceEvent list"

definition FAILOVER_NO_REPLY_ICE_HEARTBEATS :: int where
  "FAILOVER_NO_REPLY_ICE_HEARTBEATS = 3"

definition NUM_HEARTBEAT_DENIALS_FOR_KEYPAIR_REGEN :: int where
  "NUM_HEARTBEAT_DENIALS_FOR_KEYPAIR_REGEN = 3"

definition iceEmit :: "IceEvent \<Rightarrow> IceState \<Rightarrow> IceState" where
  "iceEmit e s = s\<lparr>iceEvents := iceEvents s @ [e]\<rparr>"

text \<open>
  \<^verbatim>\<open>sendICEServerAddressToMetaverseAPI\<close>: at most one request in flight, a second call only
  sets the redo flag. The announced address is \<^verbatim>\<open>0.0.0.0\<close> unless the server is connected
  to an ICE server.
\<close>

definition sendICEServerAddressToMetaverseAPI :: "IceState \<Rightarrow> IceState" where
  "sendICEServerAddressToMetaverseAPI s =
     (if sendICEServerAddressInProgress s then s\<lparr>sendICEServerAddressRedo := True\<rparr>
      else iceEmit
             (MetaverseAddressPut
                (case iceServerSocket s of
                   None \<Rightarrow> 0
                 | Some addr \<Rightarrow> if \<not> connectedToICEServer s then 0 else addr))
             (s\<lparr>sendICEServerAddressInProgress := True\<rparr>))"

definition handleSuccessfulICEServerAddressUpdate :: "IceState \<Rightarrow> IceState" where
  "handleSuccessfulICEServerAddressUpdate s =
     (let s1 = s\<lparr>sendICEServerAddressInProgress := False\<rparr>
      in if sendICEServerAddressRedo s1
         then sendICEServerAddressToMetaverseAPI (s1\<lparr>sendICEServerAddressRedo := False\<rparr>)
         else s1)"

definition updateICEServerAddresses :: "IceState \<Rightarrow> IceState" where
  "updateICEServerAddresses s =
     (if \<not> iceAddressLookupPending s
      then iceEmit HostLookup (s\<lparr>iceAddressLookupPending := True\<rparr>)
      else s)"

text \<open>The tail of \<^verbatim>\<open>sendHeartbeatToIceServer\<close>: the (re-signed) packet goes to the current socket.\<close>

definition sendHeartbeatPacket :: "IceState \<Rightarrow> IceState" where
  "sendHeartbeatPacket s =
     (case iceServerSocket s of None \<Rightarrow> s | Some addr \<Rightarrow> iceEmit (HeartbeatSent addr) s)"

text \<open>
  \<^verbatim>\<open>sendHeartbeatToIceServer\<close> and \<^verbatim>\<open>randomizeICEServerAddress\<close> call each other.
  \<open>pick k maxIndex\<close> is the \<open>k\<close>-th value drawn from
  \<^verbatim>\<open>std::uniform_int_distribution<>(0, maxIndex)\<close>. The result \<open>None\<close> is the out-of-range
  \<^verbatim>\<open>candidateICEAddresses[indexToTry]\<close>, which happens when no address has been resolved.
\<close>

function sendHeartbeatToIceServer :: "(nat \<Rightarrow> nat \<Rightarrow> nat) \<Rightarrow> IceState \<Rightarrow> IceState option"
  and randomizeICEServerAddress :: "(nat \<Rightarrow> nat \<Rightarrow> nat) \<Rightarrow> bool \<Rightarrow> IceState \<Rightarrow> IceState option"
where
  "sendHeartbeatToIceServer pick s =
     (if iceServerSocket s = None then Some s
      else if \<not> hasPrivateKey s then
        Some (if \<not> isNull (sessionUUID s) then iceEmit GenerateNewDomainKeypair s else s)
      else if noReplyICEHeartbeats s + 1 > FAILOVER_NO_REPLY_ICE_HEARTBEATS then
        map_option sendHeartbeatPacket
          (randomizeICEServerAddress pick True
             (sendICEServerAddressToMetaverseAPI
                (s\<lparr>failedIceServerAddresses :=
                      insert (the (iceServerSocket s)) (failedIceServerAddresses s),
                    iceServerSocket := None,
                    noReplyICEHeartbeats := 0,
                    connectedToICEServer := False\<rparr>)))
      else Some (sendHeartbeatPacket (s\<lparr>noReplyICEHeartbeats := noReplyICEHeartbeats s + 1\<rparr>)))"
| "randomizeICEServerAddress pick shouldTriggerHostLookup s =
     (let s1 = (if shouldTriggerHostLookup then updateICEServerAddresses s else s);
          remaining = filter (\<lambda>a. a \<notin> failedIceServerAddresses s1) (iceServerAddresses s1);
          s2 = (if remaining = [] then s1\<lparr>failedIceServerAddresses := {}\<rparr> else s1);
          candidateICEAddresses = (if remaining = [] then iceServerAddresses s1 else remaining);
          maxIndex = int (length candidateICEAddresses) - 1;
          indexToTry = (if maxIndex > 0 then pick (randomDraws s2) (nat maxIndex) else 0);
          s3 = (if maxIndex > 0 then s2\<lparr>randomDraws := Suc (randomDraws s2)\<rparr> else s2)
      in if indexToTry < length candidateICEAddresses then
           map_option sendICEServerAddressToMetaverseAPI
             (sendHeartbeatToIceServer pick
                (s3\<lparr>iceServerSocket := Some (candidateICEAddresses ! indexToTry),
                     numHeartbeatDenials := 0\<rparr>))
         else None)"
  by pat_completeness auto
termination
  by (relation "measure (\<lambda>x. case x of
          Inl (pick, s) \<Rightarrow> (if noReplyICEHeartbeats s \<ge> 3 then 3 else 1)
        | Inr (pick, b, s) \<Rightarrow> (if noReplyICEHeartbeats s \<ge> 3 then 4 else 2))")
     (auto simp: FAILOVER_NO_REPLY_ICE_HEARTBEATS_def sendICEServerAddressToMetaverseAPI_def
        updateICEServerAddresses_def iceEmit_def Let_def)

declare sendHeartbeatToIceServer.simps [simp del] randomizeICEServerAddress.simps [simp del]

text \<open>\<^verbatim>\<open>processICEServerHeartbeatDenialPacket\<close>.\<close>

definition processICEServerHeartbeatDenialPacket :: "IceState \<Rightarrow> IceState" where
  "processICEServerHeartbeatDenialPacket s =
     (let s1 = s\<lparr>numHeartbeatDenials := numHeartbeatDenials s + 1\<rparr>;
          s2 = (if numHeartbeatDenials s1 > NUM_HEARTBEAT_DENIALS_FOR_KEYPAIR_REGEN
                then (iceEmit GenerateNewDomainKeypair s1)\<lparr>numHeartbeatDenials := 0\<rparr>
                else s1)
      in s2\<lparr>noReplyICEHeartbeats := 0\<rparr>)"

text \<open>\<^verbatim>\<open>processICEServerHeartbeatACK\<close>.\<close>

definition processICEServerHeartbeatACK :: "IceState \<Rightarrow> IceState" where
  "processICEServerHeartbeatACK s =
     (let s1 = s\<lparr>noReplyICEHeartbeats := 0\<rparr>
      in if \<not> connectedToICEServer s1
         then sendICEServerAddressToMetaverseAPI (s1\<lparr>connectedToICEServer := True\<rparr>)
         else s1)"

text \<open>
  \<^verbatim>\<open>handleICEHostInfo\<close>: \<open>addresses\<close> are the IPv4 results, \<open>lookupError\<close> is
  \<^verbatim>\<open>hostInfo.error() != QHostInfo::NoError\<close>. Null addresses are dropped. The retry timer of
  the failure branch is outside the model.
\<close>

definition handleICEHostInfo ::
  "(nat \<Rightarrow> nat \<Rightarrow> nat) \<Rightarrow> QHostAddress list \<Rightarrow> bool \<Rightarrow> IceState \<Rightarrow> IceState option" where
  "handleICEHostInfo pick addresses lookupError s =
     (let s1 = s\<lparr>iceAddressLookupPending := False\<rparr>;
          sanitizedAddresses = filter (\<lambda>a. a \<noteq> 0) addresses
      in if lookupError \<or> sanitizedAddresses = [] then Some s1
         else let s2 = s1\<lparr>iceServerAddresses := sanitizedAddresses\<rparr>
              in if iceServerSocket s2 = None then randomizeICEServerAddress pick False s2
                 else Some s2)"

text \<open>A run of \<open>n\<close> consecutive denial packets.\<close>

fun denials :: "nat \<Rightarrow> IceState \<Rightarrow> IceState" where
  "denials 0 s = s"
| "denials (Suc n) s = denials n (processICEServerHeartbeatDenialPacket s)"

section \<open>Metaverse heartbeat errors\<close>

datatype DomainType = NonMetaverse | MetaverseDomain | MetaverseTemporaryDomain

text \<open>
  The values of \<^verbatim>\<open>QNetworkReply::NetworkError\<close> the handler distinguishes: the 401, the 404,
  and every other error (carrying Qt's code).
\<close>

datatype NetworkError =
    AuthenticationRequiredError | ContentNotFoundError | OtherNetworkError nat

text \<open>
  \<open>metaverseHeartbeatTimer\<close> tells whether the timer pointer is non-null, \<open>attempt\<close> is the
  function-local static counter, \<open>metaverseIdIsSet\<close> whether the settings hold
  \<^verbatim>\<open>metaverse.id\<close>, \<open>temporaryNameRequests\<close> counts the POSTs to
  \<^verbatim>\<open>/api/v1/domains/temporary\<close>.
\<close>

record MetaverseState =
  metaverseHeartbeatTimer :: bool
  domainType :: DomainType
  attempt :: int
  metaverseIdIsSet :: bool
  temporaryNameRequests :: nat

definition MAX_ATTEMPTS :: int where
  "MAX_ATTEMPTS = 5"

definition getTemporaryName :: "bool \<Rightarrow> MetaverseState \<Rightarrow> MetaverseState" where
  "getTemporaryName force s =
     (if metaverseIdIsSet s \<and> \<not> force then s
      else s\<lparr>temporaryNameRequests := Suc (temporaryNameRequests s)\<rparr>)"

definition handleMetaverseHeartbeatError :: "NetworkError \<Rightarrow> MetaverseState \<Rightarrow> MetaverseState" where
  "handleMetaverseHeartbeatError err s =
     (if \<not> metaverseHeartbeatTimer s then s
      else if domainType s = MetaverseTemporaryDomain then
        (case err of
           OtherNetworkError c \<Rightarrow> s
         | _ \<Rightarrow>
            (let s1 = s\<lparr>metaverseHeartbeatTimer := False, attempt := attempt s + 1\<rparr>
             in if attempt s1 < MAX_ATTEMPTS then getTemporaryName True s1 else s1))
      else s)"

text \<open>\<^verbatim>\<open>setupHeartbeatToMetaverse\<close> re-arms the timer (after a temporary name was obtained).\<close>

definition setupHeartbeatToMetaverse :: "MetaverseState \<Rightarrow> MetaverseState" where
  "setupHeartbeatToMetaverse s = s\<lparr>metaverseHeartbeatTimer := True\<rparr>"

text \<open>A run of \<open>n\<close> heartbeat errors of kind \<open>err\<close>, the timer re-armed before each.\<close>

fun heartbeatErrors :: "nat \<Rightarrow> NetworkError \<Rightarrow> MetaverseState \<Rightarrow> MetaverseState" where
  "heartbeatErrors 0 err s = s"
| "heartbeatErrors (Suc n) err s =
     heartbeatErrors n err (handleMetaverseHeartbeatError err (setupHeartbeatToMetaverse s))"

text \<open>
  Modelled from the spec: what reaches the handlers above. A node that is admitted under a
  UUID not yet live is added to the registry and handled as connected; a list request is
  dispatched only if its source is a live node; a node that dies is evicted by the registry.
  \<open>SecretRequested\<close> stands for any other caller of \<^verbatim>\<open>connectionSecretForNodes\<close>.
\<close>

datatype RegistryEvent =
    SecretRequested QUuid QUuid
  | NodeConnects Node
  | NodeDies QUuid
  | ListRequest QUuid "NodeType_t list" string

fun registryStep :: "(nat \<Rightarrow> QUuid) \<Rightarrow> RegistryEvent \<Rightarrow> DomainServer \<Rightarrow> DomainServer option" where
  "registryStep gen (SecretRequested a b) st = Some (snd (connectionSecretForNodes gen a b st))"
| "registryStep gen (NodeConnects node) st =
     (if nodeWithUUID (nodeList st) (uuid node) \<noteq> None then Some st
      else handleConnectedNode gen (uuid node) (nodeAdded node st))"
| "registryStep gen (NodeDies u) st = killNodeWithUUID gen u st"
| "registryStep gen (ListRequest u interestList place) st =
     (if nodeWithUUID (nodeList st) u = None then Some st
      else processListRequestPacket gen u interestList place st)"

fun registryRun :: "(nat \<Rightarrow> QUuid) \<Rightarrow> RegistryEvent list \<Rightarrow> DomainServer \<Rightarrow> DomainServer option" where
  "registryRun gen [] st = Some st"
| "registryRun gen (e # es) st =
     (case registryStep gen e st of None \<Rightarrow> None | Some st' \<Rightarrow> registryRun gen es st')"

section \<open>Entities file replacement\<close>

type_synonym QByteArray = string

text \<open>
  Modelled from the spec: \<^verbatim>\<open>OctreeUtils::RawEntityData\<close> belongs to the octree library.
  It is the parsed scene file: the header \<open>{id, version}\<close> and the payload.
\<close>

record RawEntityData =
  entityId :: QUuid
  entityVersion :: "64 word"
  entityPayload :: QByteArray

text \<open>
  The scene-file codec the controller calls: parsing of the header from JSON bytes,
  serialisation, and the two gzip helpers (\<open>gunzip\<close> fails on bytes that are not compressed).
\<close>

record OctreeCodec =
  readOctreeDataInfoFromData :: "QByteArray \<Rightarrow> RawEntityData option"
  toByteArray :: "RawEntityData \<Rightarrow> QByteArray"
  gunzip :: "QByteArray \<Rightarrow> QByteArray option"
  gzip :: "QByteArray \<Rightarrow> QByteArray"
  INITIAL_VERSION :: "64 word"

text \<open>
  The two files, and what the file system will do: whether the replacement file can be
  removed, whether each file can be opened for writing (which truncates it), and how a write
  to each ends: \<open>None\<close> when it completes, \<open>Some k\<close> when it fails after \<open>k\<close> bytes.
\<close>

record EntityFiles =
  entitiesFile :: "QByteArray option"
  replacementFile :: "QByteArray option"
  canRemoveReplacement :: bool
  canOpenEntities :: bool
  entitiesWriteFailsAfter :: "nat option"
  canOpenReplacement :: bool
  replacementWriteFailsAfter :: "nat option"

text \<open>What a file opened for writing holds after \<^verbatim>\<open>QFile::write\<close> of the given bytes.\<close>

definition written :: "nat option \<Rightarrow> QByteArray \<Rightarrow> QByteArray" where
  "written failsAfter bytes = (case failsAfter of None \<Rightarrow> bytes | Some k \<Rightarrow> take k bytes)"

text \<open>
  Modelled from the spec: \<^verbatim>\<open>readOctreeDataInfoFromFile\<close> reads a file that may be gzipped
  and parses its header; it fails if the file is missing or the header does not parse.
\<close>

definition readOctreeDataInfoFromFile ::
  "OctreeCodec \<Rightarrow> QByteArray option \<Rightarrow> RawEntityData option" where
  "readOctreeDataInfoFromFile codec file =
     (case file of
        None \<Rightarrow> None
      | Some contents \<Rightarrow>
          readOctreeDataInfoFromData codec
            (case gunzip codec contents of None \<Rightarrow> contents | Some json \<Rightarrow> json))"

text \<open>
  Modelled from the spec: \<^verbatim>\<open>resetIdAndVersion\<close> rewrites id and version to a fresh value,
  a new UUID and the initial version.
\<close>

definition resetIdAndVersion :: "OctreeCodec \<Rightarrow> QUuid \<Rightarrow> RawEntityData \<Rightarrow> RawEntityData" where
  "resetIdAndVersion codec newId entityData =
     entityData\<lparr>entityId := newId, entityVersion := INITIAL_VERSION codec\<rparr>"

definition toGzippedByteArray :: "OctreeCodec \<Rightarrow> RawEntityData \<Rightarrow> QByteArray" where
  "toGzippedByteArray codec entityData = gzip codec (toByteArray codec entityData)"

text \<open>
  \<^verbatim>\<open>maybeHandleReplacementEntityFile\<close>, run at startup. The replacement file is removed
  before the entities file is opened, and the result of the write to the entities file is
  not looked at.
\<close>

definition maybeHandleReplacementEntityFile ::
  "OctreeCodec \<Rightarrow> QUuid \<Rightarrow> EntityFiles \<Rightarrow> EntityFiles" where
  "maybeHandleReplacementEntityFile codec newId fs =
     (case readOctreeDataInfoFromFile codec (replacementFile fs) of
        None \<Rightarrow> fs
      | Some entityData \<Rightarrow>
          if \<not> canRemoveReplacement fs then fs
          else
            (let fs1 = fs\<lparr>replacementFile := None\<rparr>;
                 gzippedData = toGzippedByteArray codec (resetIdAndVersion codec newId entityData)
             in if \<not> canOpenEntities fs1 then fs1
                else fs1\<lparr>entitiesFile := Some (written (entitiesWriteFailsAfter fs1) gzippedData)\<rparr>))"

text \<open>
  \<^verbatim>\<open>handleOctreeFileReplacement\<close>, run on an upload; the result tells whether the restart was
  requested. Here a failed write (\<^verbatim>\<open>write\<close> returns -1) is noticed.
\<close>

definition handleOctreeFileReplacement ::
  "OctreeCodec \<Rightarrow> QUuid \<Rightarrow> QByteArray \<Rightarrow> EntityFiles \<Rightarrow> EntityFiles \<times> bool" where
  "handleOctreeFileReplacement codec newId octreeFile fs =
     (let jsonOctree = (case gunzip codec octreeFile of None \<Rightarrow> octreeFile | Some json \<Rightarrow> json)
      in case readOctreeDataInfoFromData codec jsonOctree of
           None \<Rightarrow> (fs, False)
         | Some entityData \<Rightarrow>
            (let compressedOctree = gzip codec (toByteArray codec (resetIdAndVersion codec newId entityData))
             in if \<not> canOpenReplacement fs then (fs, False)
                else
                  (fs\<lparr>replacementFile :=
                        Some (written (replacementWriteFailsAfter fs) compressedOctree)\<rparr>,
                   replacementWriteFailsAfter fs = None)))"

section \<open>Administrative HTTP surface\<close>

text \<open>
  Modelled from the spec: the HTTP connection, the web session data and the settings manager
  belong to other files of the repository. A connection carries the request operation and the
  request headers; a missing header reads as the empty string. A response is a status code, a
  body, a content type (\<open>None\<close> for the default one) and extra headers.
\<close>

datatype Operation =
  HeadOperation | GetOperation | PutOperation | PostOperation | DeleteOperation | CustomOperation



datatype StatusCode = StatusCode200 | StatusCode302 | StatusCode401 | StatusCode404

datatype HTTPResponse = Respond StatusCode string "string option" "(string \<times> string) list"

record DomainServerWebSessionData =
  sessionUsername :: string
  sessionRoles :: "string list"

text \<open>
  The four settings the authentication check reads; \<open>None\<close> is the invalid \<^verbatim>\<open>QVariant\<close> of a
  key that is not set.
\<close>

record DomainServerSettings =
  adminUsers :: "string list option"
  adminRoles :: "string list option"
  httpUsername :: "string option"
  httpPassword :: "string option"



text \<open>
  The controller's state as the HTTP handlers see it: the registry and assignment state, the
  session UUID, the host name, the port of the HTTPS server if there is one, the OAuth
  configuration, the settings, the uploaded scripts by assignment UUID, the pending OAuth
  states, the cookie sessions, and the responses sent.
\<close>

record WebAdmin =
  domainServer :: DomainServer
  sessionUUID :: QUuid
  hostname :: string
  httpsServerPort :: "nat option"
  oauthProviderURL :: string
  oauthClientID :: string
  settings :: DomainServerSettings
  ephemeralACScripts :: "(QUuid \<times> string) list"
  webAuthenticationStateSet :: "QUuid set"
  cookieSessionHash :: "(QUuid \<times> DomainServerWebSessionData) list"
  responses :: "HTTPResponse list"


subsection \<open>The two regular expressions\<close>







text \<open>\<^verbatim>\<open>QString::split(sep)\<close>, which keeps empty parts.\<close>

fun split :: "char \<Rightarrow> string \<Rightarrow> string list" where
  "split sep [] = [[]]"
| "split sep (c # cs) =
     (if c = sep then [] # split sep cs
      else (case split sep cs of
              [] \<Rightarrow> [[c]]
            | w # ws \<Rightarrow> (c # w) # ws))"

subsection \<open>The authentication check\<close>






subsection \<open>The request handler, up to the authentication check\<close>



section \<open>Vocabulary of the specification\<close>

text \<open>
  A queue entry matches a request: the types are equal or the requester asked for \<open>AllTypes\<close>,
  and the pools are equal or both empty.
\<close>

definition requestMatches :: "Assignment \<Rightarrow> Assignment \<Rightarrow> bool" where
  "requestMatches requestAssignment assignment =
     ((assignmentType assignment = assignmentType requestAssignment
         \<or> assignmentType requestAssignment = AllTypes) \<and>
      (pool assignment = pool requestAssignment
         \<or> (pool assignment = [] \<and> pool requestAssignment = [])))"

text \<open>
  An entry is at the front of its type class: no entry of the same type stands before it in
  the unfulfilled queue.
\<close>

definition frontOfTypeClass :: "DomainServer \<Rightarrow> ptr \<Rightarrow> bool" where
  "frontOfTypeClass st p =
     (List.find (\<lambda>q. assignmentType (assignmentStore st q) = assignmentType (assignmentStore st p))
        (unfulfilledAssignments st) = Some p)"

text \<open>The secret node \<open>a\<close> holds for peer \<open>b\<close>, if \<open>a\<close> is live and has an entry for \<open>b\<close>.\<close>

definition secretOf :: "Node list \<Rightarrow> QUuid \<Rightarrow> QUuid \<Rightarrow> QUuid option" where
  "secretOf nodes a b =
     (case nodeDataOf nodes a of None \<Rightarrow> None | Some d \<Rightarrow> map_of (sessionSecretHash d) b)"

text \<open>
  The registry invariant: UUIDs are unique, every node has linked data, and every entry of a
  node's secret hash names a live peer that holds the same, non-null secret for that node.
\<close>

definition registryInv :: "Node list \<Rightarrow> bool" where
  "registryInv nodes =
     (distinct (map uuid nodes) \<and>
      (\<forall>n\<in>set nodes.
         case linkedData n of
           None \<Rightarrow> False
         | Some d \<Rightarrow>
            (\<forall>k\<in>set (map fst (sessionSecretHash d)).
               secretOf nodes k (uuid n) = map_of (sessionSecretHash d) k \<and>
               map_of (sessionSecretHash d) k \<noteq> Some 0)))"

definition allLinked :: "Node list \<Rightarrow> bool" where
  "allLinked nodes = (\<forall>n\<in>set nodes. linkedData n \<noteq> None)"

text \<open>The two writes of a newly generated secret, into A's hash under B and into B's under A.\<close>

definition storeSecret :: "QUuid \<Rightarrow> QUuid \<Rightarrow> QUuid \<Rightarrow> Node list \<Rightarrow> Node list" where
  "storeSecret a b s nodes =
     modifyNodeData b (\<lambda>d. d\<lparr>sessionSecretHash := AList.update a s (sessionSecretHash d)\<rparr>)
       (modifyNodeData a (\<lambda>d. d\<lparr>sessionSecretHash := AList.update b s (sessionSecretHash d)\<rparr>)
          nodes)"

text \<open>The later registry keeps every live node and every secret of the earlier one.\<close>

definition keepsSecrets :: "Node list \<Rightarrow> Node list \<Rightarrow> bool" where
  "keepsSecrets nodes nodes' =
     (uuid ` set nodes \<subseteq> uuid ` set nodes' \<and>
      (\<forall>x y v. secretOf nodes x y = Some v \<longrightarrow> secretOf nodes' x y = Some v))"

text \<open>The stored interest set and the type behind a node pointer.\<close>

definition interestOf :: "Node list \<Rightarrow> QUuid \<Rightarrow> NodeType_t set option" where
  "interestOf nodes u = map_option nodeInterestSet (nodeDataOf nodes u)"

definition typeOf :: "Node list \<Rightarrow> QUuid \<Rightarrow> NodeType_t option" where
  "typeOf nodes u = map_option nodeType (nodeWithUUID nodes u)"




text \<open>
  The addresses a failover may pick from: the resolved addresses that have not failed, or all
  resolved addresses when every one of them has failed.
\<close>

definition failoverCandidates :: "QHostAddress set \<Rightarrow> QHostAddress list \<Rightarrow> QHostAddress list" where
  "failoverCandidates failed addresses =
     (if filter (\<lambda>a. a \<notin> failed) addresses = [] then addresses
      else filter (\<lambda>a. a \<notin> failed) addresses)"

text \<open>The index drawn for a candidate list: drawn only if there is more than one candidate.\<close>

definition drawnIndex :: "(nat \<Rightarrow> nat \<Rightarrow> nat) \<Rightarrow> nat \<Rightarrow> QHostAddress list \<Rightarrow> nat" where
  "drawnIndex pick k candidates =
     (if length candidates > 1 then pick k (length candidates - 1) else 0)"









section \<open>Concrete states\<close>

text \<open>
  An engine that is connected to \<open>10.0.0.1\<close>, one of three resolved addresses, with every
  counter at zero and nothing sent yet.
\<close>

definition iceConnected :: IceState where
  "iceConnected =
     \<lparr>iceServerSocket = Some 0x0A000001,
      iceServerAddresses = [0x0A000001, 0x0A000002, 0x0A000003],
      failedIceServerAddresses = {},
      noReplyICEHeartbeats = 0,
      numHeartbeatDenials = 0,
      connectedToICEServer = True,
      hasPrivateKey = True,
      sessionUUID = 1,
      sendICEServerAddressInProgress = False,
      sendICEServerAddressRedo = False,
      iceAddressLookupPending = False,
      randomDraws = 0,
      iceEvents = []\<rparr>"

text \<open>A temporary domain whose heartbeat is running and that has seen no error yet.\<close>

definition temporaryDomain :: MetaverseState where
  "temporaryDomain =
     \<lparr>metaverseHeartbeatTimer = True,
      domainType = MetaverseTemporaryDomain,
      attempt = 0,
      metaverseIdIsSet = True,
      temporaryNameRequests = 0\<rparr>"

text \<open>A user, a script agent deployed from an assignment, and an audio mixer.\<close>

definition threeNodes :: "Node list" where
  "threeNodes =
     [\<lparr>uuid = 1, nodeType = Agent, linkedData = Some newNodeData, activeSocket = True\<rparr>,
      \<lparr>uuid = 2, nodeType = Agent,
       linkedData = Some (newNodeData\<lparr>assignmentUUID := 7, wasAssigned := True\<rparr>),
       activeSocket = True\<rparr>,
      \<lparr>uuid = 3, nodeType = AudioMixer,
       linkedData = Some (newNodeData\<lparr>assignmentUUID := 8, wasAssigned := True\<rparr>),
       activeSocket = True\<rparr>]"

text \<open>
  Three static assignments: two audio mixers and a scripted agent whose script is on disk.
  The first mixer is deployed to the node \<open>deadMixer\<close>, the other two wait in the queue.
\<close>

definition staticAssignments :: "ptr \<Rightarrow> Assignment" where
  "staticAssignments p =
     \<lparr>assignmentUuid = (if p = 0 then 0x10 else if p = 1 then 0x11 else 0x12),
      assignmentType = (if p = 0 \<or> p = 1 then AudioMixerType else AgentType),
      pool = [], payload = [], isStatic = True, walletUUID = 0, nodeVersion = []\<rparr>"

definition respawnState :: DomainServer where
  "respawnState =
     \<lparr>nodeList = [],
      assignmentStore = staticAssignments,
      allAssignments = [(0x10, 0), (0x11, 1), (0x12, 2)],
      unfulfilledAssignments = [1, 2],
      pendingAssignedNodes = [],
      scriptFiles = [(0x12, ''print(1)'')],
      sentPackets = [],
      uuidsCreated = 0\<rparr>"

definition deadMixer :: Node where
  "deadMixer =
     \<lparr>uuid = 5, nodeType = AudioMixer,
      linkedData = Some (newNodeData\<lparr>assignmentUUID := 0x10, wasAssigned := True\<rparr>),
      activeSocket = True\<rparr>"

text \<open>A UUID source that never yields the null UUID on the inputs used below.\<close>

definition countingUuids :: "nat \<Rightarrow> QUuid" where
  "countingUuids k = 0x100 + of_nat k"

text \<open>A request for a scripted agent without a pool, and one for an asset server.\<close>

definition agentRequest :: Assignment where
  "agentRequest =
     \<lparr>assignmentUuid = 0, assignmentType = AgentType, pool = [], payload = [],
      isStatic = False, walletUUID = 9, nodeVersion = ''v1''\<rparr>"

definition localhostOnly :: "32 word \<Rightarrow> 32 word \<Rightarrow> bool" where
  "localhostOnly addr subnet = (addr = subnet)"

text \<open>The queue after the mixer's death, and a script agent that dies while only a mixer waits.\<close>

definition respawnedState :: DomainServer where
  "respawnedState =
     respawnState
       \<lparr>assignmentStore := staticAssignments (0 := (staticAssignments 0)\<lparr>assignmentUuid := 0x100\<rparr>),
        allAssignments := [(0x11, 1), (0x12, 2), (0x100, 0)],
        unfulfilledAssignments := [1, 2, 0],
        uuidsCreated := 1\<rparr>"

definition deadAgent :: Node where
  "deadAgent =
     \<lparr>uuid = 6, nodeType = Agent,
      linkedData = Some (newNodeData\<lparr>assignmentUUID := 0x12, wasAssigned := True\<rparr>),
      activeSocket = True\<rparr>"

text \<open>
  Two users and an avatar mixer, all freshly admitted, and a UUID source whose values are odd,
  hence never null.
\<close>

definition meetingState :: DomainServer where
  "meetingState =
     \<lparr>nodeList =
        [\<lparr>uuid = 0xA, nodeType = Agent, linkedData = Some newNodeData, activeSocket = True\<rparr>,
         \<lparr>uuid = 0xB, nodeType = Agent, linkedData = Some newNodeData, activeSocket = True\<rparr>,
         \<lparr>uuid = 0xC, nodeType = AvatarMixer,
          linkedData = Some (newNodeData\<lparr>nodeInterestSet := {Agent}, wasAssigned := True\<rparr>),
          activeSocket = True\<rparr>],
      assignmentStore = staticAssignments,
      allAssignments = [],
      unfulfilledAssignments = [],
      pendingAssignedNodes = [],
      scriptFiles = [],
      sentPackets = [],
      uuidsCreated = 0\<rparr>"

definition oddUuids :: "nat \<Rightarrow> QUuid" where
  "oddUuids k = 2 * of_nat k + 1"



text \<open>Three heartbeats to \<open>10.0.0.1\<close> went unanswered; the random source draws index 0.\<close>

definition iceUnanswered :: IceState where
  "iceUnanswered = iceConnected\<lparr>noReplyICEHeartbeats := 3\<rparr>"

definition drawsZero :: "nat \<Rightarrow> nat \<Rightarrow> nat" where
  "drawsZero k maxIndex = 0"

text \<open>
  A toy codec: compressed bytes start with \<open>Z\<close>, a scene parses if it starts with a brace. An
  old scene is in place and a valid replacement waits, but the entities file cannot be opened
  for writing.
\<close>

definition toyCodec :: OctreeCodec where
  "toyCodec =
     \<lparr>readOctreeDataInfoFromData =
        (\<lambda>json. if take 1 json = ''{'' then
                   Some \<lparr>entityId = 7, entityVersion = 3, entityPayload = json\<rparr>
                 else None),
      toByteArray = entityPayload,
      gunzip = (\<lambda>bytes. if take 1 bytes = ''Z'' then Some (drop 1 bytes) else None),
      gzip = (\<lambda>bytes. ''Z'' @ bytes),
      INITIAL_VERSION = 0\<rparr>"

definition readOnlyEntities :: EntityFiles where
  "readOnlyEntities =
     \<lparr>entitiesFile = Some ''Z{old}'', replacementFile = Some ''Z{new}'',
      canRemoveReplacement = True, canOpenEntities = False, entitiesWriteFailsAfter = None,
      canOpenReplacement = True, replacementWriteFailsAfter = None\<rparr>"




chapter \<open>Properties\<close>

section \<open>User count\<close>

lemma countConnectedUsers_each_acc:
  "countConnectedUsers_each ns acc = acc + of_nat (length (filter isUnassignedAgent ns))"
proof (induction ns arbitrary: acc)
  case Nil
  show ?case by simp
next
  case (Cons n ns)
  show ?case
    by (cases "linkedData n") (simp_all add: Cons.IH isUnassignedAgent_def)
qed

lemma countConnectedUsers_word:
  "countConnectedUsers ns = of_nat (length (filter isUnassignedAgent ns))"
  by (simp add: countConnectedUsers_def countConnectedUsers_each_acc)


text \<open>
  C10. The user count used for the capacity check is the number of live nodes of type Agent
  whose linked data says they were not created from an assignment; workers and assigned script
  agents are never counted. The counter is an \<^verbatim>\<open>unsigned int\<close>: the equality holds in
  32-bit arithmetic, and as a plain number whenever the registry holds fewer than \<open>2^32\<close> nodes.
\<close>

theorem countConnectedUsers_counts_unassigned_agents:
  "countConnectedUsers ns = of_nat (length (filter isUnassignedAgent ns)) \<and>
   (length ns < 2 ^ 32 \<longrightarrow>
      unat (countConnectedUsers ns) = length (filter isUnassignedAgent ns))"
proof -
  have le: "length (filter isUnassignedAgent ns) \<le> length ns"
    by (rule length_filter_le)
  have "unat (word_of_nat (length (filter isUnassignedAgent ns)) :: 32 word) =
        length (filter isUnassignedAgent ns)" if "length ns < 2 ^ 32"
  proof -
    from le that have "length (filter isUnassignedAgent ns) < 2 ^ 32"
      by (rule le_less_trans)
    then show ?thesis
      by (simp add: unat_of_nat)
  qed
  then show ?thesis
    by (simp add: countConnectedUsers_word)
qed

theorem countConnectedUsers_counts_unassigned_agents_witness:
  "length threeNodes < 2 ^ 32 \<and> unat (countConnectedUsers threeNodes) = 1 \<and>
   length (filter isUnassignedAgent threeNodes) = 1"
proof -
  have l: "length threeNodes < 2 ^ 32"
    by (simp add: threeNodes_def)
  have f: "length (filter isUnassignedAgent threeNodes) = 1"
    by (simp add: threeNodes_def isUnassignedAgent_def newNodeData_def)
  from countConnectedUsers_counts_unassigned_agents [of threeNodes] l f
  show ?thesis by simp
qed

section \<open>Heartbeat denials\<close>

lemma denial_below_threshold:
  "numHeartbeatDenials s < 3 \<Longrightarrow>
   processICEServerHeartbeatDenialPacket s =
     s\<lparr>numHeartbeatDenials := numHeartbeatDenials s + 1, noReplyICEHeartbeats := 0\<rparr>"
  by (simp add: processICEServerHeartbeatDenialPacket_def
      NUM_HEARTBEAT_DENIALS_FOR_KEYPAIR_REGEN_def Let_def)

lemma denial_at_threshold:
  "numHeartbeatDenials s = 3 \<Longrightarrow>
   processICEServerHeartbeatDenialPacket s =
     s\<lparr>numHeartbeatDenials := 0, iceEvents := iceEvents s @ [GenerateNewDomainKeypair],
       noReplyICEHeartbeats := 0\<rparr>"
  by (simp add: processICEServerHeartbeatDenialPacket_def
      NUM_HEARTBEAT_DENIALS_FOR_KEYPAIR_REGEN_def Let_def iceEmit_def)

lemma denials_from_zero:
  assumes "numHeartbeatDenials s = 0"
  shows "iceEvents (denials 3 s) = iceEvents s"
    and "numHeartbeatDenials (denials 3 s) = 3"
    and "iceEvents (denials 4 s) = iceEvents s @ [GenerateNewDomainKeypair]"
    and "numHeartbeatDenials (denials 4 s) = 0"
  using assms
  by (simp_all add: eval_nat_numeral denial_below_threshold denial_at_threshold)

text \<open>
  C3. Three consecutive \<^verbatim>\<open>ICEServerHeartbeatDenied\<close> packets, counted from zero and with no
  ICE-server change in between, should regenerate the domain keypair and reset the counter.
  The handler compares the incremented counter with \<open>>\<close>: after three denials nothing has been
  asked of the account manager and the counter stands at three; the fourth denial regenerates
  the keypair and resets the counter. The constant's name and the handler's own log line
  (\<^verbatim>\<open>Received 3 heartbeat denials from ice-server - re-generating keypair now\<close>) both say three.
\<close>

theorem three_denials_leave_keypair_untouched:
  "iceEvents (denials 3 iceConnected) = [] \<and>
   numHeartbeatDenials (denials 3 iceConnected) = 3 \<and>
   iceEvents (denials 4 iceConnected) = [GenerateNewDomainKeypair] \<and>
   numHeartbeatDenials (denials 4 iceConnected) = 0"
proof -
  have z: "numHeartbeatDenials iceConnected = 0" and e: "iceEvents iceConnected = []"
    by (simp_all add: iceConnected_def)
  show ?thesis
    using denials_from_zero [OF z] e by simp
qed

section \<open>Metaverse heartbeat errors\<close>

lemma handleMetaverseHeartbeatError_domainType [simp]:
  "domainType (handleMetaverseHeartbeatError err s) = domainType s"
  by (cases err)
     (simp_all add: handleMetaverseHeartbeatError_def getTemporaryName_def Let_def)

lemma handle_forced_error:
  assumes "metaverseHeartbeatTimer s" "domainType s = MetaverseTemporaryDomain"
    and "err = AuthenticationRequiredError \<or> err = ContentNotFoundError"
  shows "handleMetaverseHeartbeatError err s =
           s\<lparr>metaverseHeartbeatTimer := False, attempt := attempt s + 1,
             temporaryNameRequests :=
               (if attempt s + 1 < MAX_ATTEMPTS then Suc (temporaryNameRequests s)
                else temporaryNameRequests s)\<rparr>"
  using assms
  by (auto simp: handleMetaverseHeartbeatError_def getTemporaryName_def Let_def)

lemma heartbeatErrors_requests:
  assumes "domainType s = MetaverseTemporaryDomain"
    and "err = AuthenticationRequiredError \<or> err = ContentNotFoundError"
    and "attempt s = int a"
  shows "temporaryNameRequests (heartbeatErrors n err s) =
           temporaryNameRequests s + (min (a + n) 4 - min a 4)"
  using assms
proof (induction n arbitrary: s a)
  case 0
  show ?case by simp
next
  case (Suc n)
  let ?s1 = "handleMetaverseHeartbeatError err (setupHeartbeatToMetaverse s)"
  have step: "?s1 = s\<lparr>metaverseHeartbeatTimer := False, attempt := attempt s + 1,
             temporaryNameRequests :=
               (if attempt s + 1 < MAX_ATTEMPTS then Suc (temporaryNameRequests s)
                else temporaryNameRequests s)\<rparr>"
    using Suc.prems handle_forced_error [of "setupHeartbeatToMetaverse s" err]
    by (simp add: setupHeartbeatToMetaverse_def)
  have d: "domainType ?s1 = MetaverseTemporaryDomain"
    using Suc.prems by (simp add: step)
  have a: "attempt ?s1 = int (Suc a)"
    using Suc.prems by (simp add: step)
  have r: "temporaryNameRequests ?s1 =
             (if a < 4 then Suc (temporaryNameRequests s) else temporaryNameRequests s)"
    using Suc.prems(3) by (simp add: step MAX_ATTEMPTS_def)
  have "temporaryNameRequests (heartbeatErrors (Suc n) err s) =
          temporaryNameRequests ?s1 + (min (Suc a + n) 4 - min (Suc a) 4)"
    using Suc.IH [OF d Suc.prems(2) a] by simp
  also have "\<dots> = temporaryNameRequests s + (min (a + Suc n) 4 - min a 4)"
    by (auto simp: r min_def)
  finally show ?case .
qed

text \<open>
  What the handler does with an error that arrives while the heartbeat timer is running: for
  a temporary domain a 401 or a 404 stops the timer and requests a new temporary name while
  the incremented attempt counter is below \<open>MAX_ATTEMPTS\<close>; any other error leaves the state
  as it is; a domain that is not temporary never requests a name here. Counted from a fresh
  start, \<open>n\<close> such errors request \<open>min n 4\<close> names. (An error that arrives after the timer has
  been halted is not handled again.)
\<close>

lemma handleMetaverseHeartbeatError_cases:
  "(metaverseHeartbeatTimer s \<and> domainType s = MetaverseTemporaryDomain \<and>
      (err = AuthenticationRequiredError \<or> err = ContentNotFoundError) \<longrightarrow>
        \<not> metaverseHeartbeatTimer (handleMetaverseHeartbeatError err s) \<and>
        attempt (handleMetaverseHeartbeatError err s) = attempt s + 1 \<and>
        temporaryNameRequests (handleMetaverseHeartbeatError err s) =
          (if attempt s + 1 < 5 then temporaryNameRequests s + 1
           else temporaryNameRequests s)) \<and>
   handleMetaverseHeartbeatError (OtherNetworkError c) s = s \<and>
   (domainType s \<noteq> MetaverseTemporaryDomain \<longrightarrow> handleMetaverseHeartbeatError err s = s) \<and>
   (domainType s = MetaverseTemporaryDomain \<and> attempt s = 0 \<and>
      (err = AuthenticationRequiredError \<or> err = ContentNotFoundError) \<longrightarrow>
        temporaryNameRequests (heartbeatErrors n err s) = temporaryNameRequests s + min n 4)"
proof (intro conjI impI)
  assume a: "metaverseHeartbeatTimer s \<and> domainType s = MetaverseTemporaryDomain \<and>
      (err = AuthenticationRequiredError \<or> err = ContentNotFoundError)"
  then have eq: "handleMetaverseHeartbeatError err s =
           s\<lparr>metaverseHeartbeatTimer := False, attempt := attempt s + 1,
             temporaryNameRequests :=
               (if attempt s + 1 < MAX_ATTEMPTS then Suc (temporaryNameRequests s)
                else temporaryNameRequests s)\<rparr>"
    by (intro handle_forced_error) simp_all
  show "\<not> metaverseHeartbeatTimer (handleMetaverseHeartbeatError err s)"
    by (simp add: eq)
  show "attempt (handleMetaverseHeartbeatError err s) = attempt s + 1"
    by (simp add: eq)
  show "temporaryNameRequests (handleMetaverseHeartbeatError err s) =
          (if attempt s + 1 < 5 then temporaryNameRequests s + 1
           else temporaryNameRequests s)"
    by (simp add: eq MAX_ATTEMPTS_def)
next
  show "handleMetaverseHeartbeatError (OtherNetworkError c) s = s"
    by (simp add: handleMetaverseHeartbeatError_def)
next
  assume "domainType s \<noteq> MetaverseTemporaryDomain"
  then show "handleMetaverseHeartbeatError err s = s"
    by (simp add: handleMetaverseHeartbeatError_def)
next
  assume a: "domainType s = MetaverseTemporaryDomain \<and> attempt s = 0 \<and>
      (err = AuthenticationRequiredError \<or> err = ContentNotFoundError)"
  then show "temporaryNameRequests (heartbeatErrors n err s) = temporaryNameRequests s + min n 4"
    using heartbeatErrors_requests [of s err 0 n] by simp
qed

text \<open>
  C9. On a temporary domain a 401 or a 404 should stop the heartbeat timer and request a new
  temporary name, giving up after five failed attempts. The handler tests the incremented
  counter with \<open><\<close> against \<open>MAX_ATTEMPTS = 5\<close>: from a fresh start, with the heartbeat re-armed
  after each new name, four errors request four names; the fifth error stops the timer and
  requests nothing, and so does every later one. Four attempts are made, not the five the
  constant names.
\<close>

theorem fifth_heartbeat_error_requests_no_name:
  "temporaryNameRequests (heartbeatErrors 4 AuthenticationRequiredError temporaryDomain) = 4 \<and>
   attempt (heartbeatErrors 4 AuthenticationRequiredError temporaryDomain) = 4 \<and>
   temporaryNameRequests (heartbeatErrors 5 AuthenticationRequiredError temporaryDomain) = 4 \<and>
   attempt (heartbeatErrors 5 AuthenticationRequiredError temporaryDomain) = MAX_ATTEMPTS \<and>
   \<not> metaverseHeartbeatTimer (heartbeatErrors 5 AuthenticationRequiredError temporaryDomain) \<and>
   temporaryNameRequests (heartbeatErrors 6 AuthenticationRequiredError temporaryDomain) = 4"
  by (simp add: eval_nat_numeral handleMetaverseHeartbeatError_def getTemporaryName_def
      setupHeartbeatToMetaverse_def MAX_ATTEMPTS_def temporaryDomain_def Let_def)

section \<open>Assignment requests\<close>

lemma deployableWalk_none:
  "\<forall>q\<in>set queue. \<not> requestMatches req (store q) \<Longrightarrow>
   deployableWalk store req visited queue = None"
  by (induction queue arbitrary: visited) (auto simp: requestMatches_def Let_def)

lemma deployableWalk_first:
  "\<forall>q\<in>set pre. \<not> requestMatches req (store q) \<Longrightarrow> requestMatches req (store p) \<Longrightarrow>
   deployableWalk store req visited (pre @ p # post) = Some (p, visited @ pre @ post @ [p])"
  by (induction pre arbitrary: visited) (auto simp: requestMatches_def Let_def)

lemma allowListed_iff:
  "(List.find (isInSubnet addr) whitelist = None) \<longleftrightarrow> \<not> (\<exists>m\<in>set whitelist. isInSubnet addr m)"
  by (auto simp: find_None_iff)

text \<open>
  C7. An assignment request from a sender that is in no allow-listed subnet changes nothing.
  From an allow-listed sender the queue is walked in order: the first entry that matches the
  request is rotated to the back of the queue, a copy of it under the next fresh UUID is sent
  to the requester in a \<^verbatim>\<open>CreateAssignment\<close>, and the pending-assigned-nodes table maps the
  copy's UUID to the original (its UUID, with the requester's wallet and version). If no entry
  matches, nothing is dequeued and nothing is sent.
\<close>

theorem processRequestAssignmentPacket_deploys_first_match:
  "(\<not> (\<exists>m\<in>set whitelist. isInSubnet (fst sender) m) \<longrightarrow>
      processRequestAssignmentPacket isInSubnet whitelist gen req sender st = st) \<and>
   ((\<exists>m\<in>set whitelist. isInSubnet (fst sender) m) \<and>
    (\<forall>q\<in>set (unfulfilledAssignments st). \<not> requestMatches req (assignmentStore st q)) \<longrightarrow>
      processRequestAssignmentPacket isInSubnet whitelist gen req sender st = st) \<and>
   ((\<exists>m\<in>set whitelist. isInSubnet (fst sender) m) \<and>
    unfulfilledAssignments st = pre @ p # post \<and>
    (\<forall>q\<in>set pre. \<not> requestMatches req (assignmentStore st q)) \<and>
    requestMatches req (assignmentStore st p) \<longrightarrow>
      processRequestAssignmentPacket isInSubnet whitelist gen req sender st =
        st\<lparr>unfulfilledAssignments := pre @ post @ [p],
           uuidsCreated := Suc (uuidsCreated st),
           sentPackets := sentPackets st @
             [CreateAssignment sender
                ((assignmentStore st p)\<lparr>assignmentUuid := gen (uuidsCreated st)\<rparr>)],
           pendingAssignedNodes :=
             AList.update (gen (uuidsCreated st))
               \<lparr>pendingAssignmentUUID = assignmentUuid (assignmentStore st p),
                pendingWalletUUID = walletUUID req,
                pendingNodeVersion = nodeVersion req\<rparr>
               (pendingAssignedNodes st)\<rparr>)"
proof (intro conjI impI)
  assume "\<not> (\<exists>m\<in>set whitelist. isInSubnet (fst sender) m)"
  then show "processRequestAssignmentPacket isInSubnet whitelist gen req sender st = st"
    by (auto simp: processRequestAssignmentPacket_def find_None_iff)
next
  assume a: "(\<exists>m\<in>set whitelist. isInSubnet (fst sender) m) \<and>
    (\<forall>q\<in>set (unfulfilledAssignments st). \<not> requestMatches req (assignmentStore st q))"
  then have w: "List.find (isInSubnet (fst sender)) whitelist \<noteq> None"
    by (auto simp: find_None_iff)
  from a have "deployableWalk (assignmentStore st) req [] (unfulfilledAssignments st) = None"
    by (intro deployableWalk_none) simp
  then show "processRequestAssignmentPacket isInSubnet whitelist gen req sender st = st"
    by (simp add: w processRequestAssignmentPacket_def deployableAssignmentForRequest_def)
next
  assume a: "(\<exists>m\<in>set whitelist. isInSubnet (fst sender) m) \<and>
    unfulfilledAssignments st = pre @ p # post \<and>
    (\<forall>q\<in>set pre. \<not> requestMatches req (assignmentStore st q)) \<and>
    requestMatches req (assignmentStore st p)"
  then have w: "List.find (isInSubnet (fst sender)) whitelist \<noteq> None"
    by (auto simp: find_None_iff)
  from a have d: "deployableWalk (assignmentStore st) req [] (unfulfilledAssignments st)
      = Some (p, pre @ post @ [p])"
    using deployableWalk_first [of pre req "assignmentStore st" p "[]" post] by simp
  show "processRequestAssignmentPacket isInSubnet whitelist gen req sender st =
        st\<lparr>unfulfilledAssignments := pre @ post @ [p],
           uuidsCreated := Suc (uuidsCreated st),
           sentPackets := sentPackets st @
             [CreateAssignment sender
                ((assignmentStore st p)\<lparr>assignmentUuid := gen (uuidsCreated st)\<rparr>)],
           pendingAssignedNodes :=
             AList.update (gen (uuidsCreated st))
               \<lparr>pendingAssignmentUUID = assignmentUuid (assignmentStore st p),
                pendingWalletUUID = walletUUID req,
                pendingNodeVersion = nodeVersion req\<rparr>
               (pendingAssignedNodes st)\<rparr>"
    by (simp add: w processRequestAssignmentPacket_def deployableAssignmentForRequest_def d
        createUuid_def sendPacket_def addPendingAssignedNode_def Let_def)
qed

theorem processRequestAssignmentPacket_deploys_first_match_witness:
  "(\<exists>m\<in>set [0x7F000001]. localhostOnly (fst (0x7F000001 :: 32 word, 40102 :: 16 word)) m) \<and>
   \<not> (\<exists>m\<in>set [0x7F000001]. localhostOnly (fst (0x0A000001 :: 32 word, 40102 :: 16 word)) m) \<and>
   unfulfilledAssignments respawnState = [1] @ 2 # [] \<and>
   \<not> (\<exists>q\<in>set [1]. requestMatches agentRequest (assignmentStore respawnState q)) \<and>
   requestMatches agentRequest (assignmentStore respawnState 2) \<and>
   \<not> (\<exists>q\<in>set (unfulfilledAssignments respawnState).
      requestMatches (agentRequest\<lparr>assignmentType := AssetServerType\<rparr>) (assignmentStore respawnState q)) \<and>
   processRequestAssignmentPacket localhostOnly [0x7F000001] countingUuids agentRequest
       (0x0A000001, 40102) respawnState = respawnState \<and>
   processRequestAssignmentPacket localhostOnly [0x7F000001] countingUuids
       (agentRequest\<lparr>assignmentType := AssetServerType\<rparr>) (0x7F000001, 40102) respawnState
     = respawnState \<and>
   processRequestAssignmentPacket localhostOnly [0x7F000001] countingUuids agentRequest
       (0x7F000001, 40102) respawnState =
     respawnState\<lparr>unfulfilledAssignments := [1, 2], uuidsCreated := 1,
        sentPackets := [CreateAssignment (0x7F000001, 40102)
                          ((staticAssignments 2)\<lparr>assignmentUuid := 0x100\<rparr>)],
        pendingAssignedNodes :=
          [(0x100, \<lparr>pendingAssignmentUUID = 0x12, pendingWalletUUID = 9,
                    pendingNodeVersion = ''v1''\<rparr>)]\<rparr>"
proof -
  have a: "\<exists>m\<in>set [0x7F000001]. localhostOnly (fst (0x7F000001 :: 32 word, 40102 :: 16 word)) m"
    by (simp add: localhostOnly_def)
  have b: "\<not> (\<exists>m\<in>set [0x7F000001]. localhostOnly (fst (0x0A000001 :: 32 word, 40102 :: 16 word)) m)"
    by (simp add: localhostOnly_def)
  have q: "unfulfilledAssignments respawnState = [1] @ 2 # []"
    by (simp add: respawnState_def)
  have n: "\<forall>q\<in>set [1]. \<not> requestMatches agentRequest (assignmentStore respawnState q)"
    by (simp add: respawnState_def requestMatches_def agentRequest_def staticAssignments_def)
  have y: "requestMatches agentRequest (assignmentStore respawnState 2)"
    by (simp add: respawnState_def requestMatches_def agentRequest_def staticAssignments_def)
  have z: "\<forall>q\<in>set (unfulfilledAssignments respawnState).
      \<not> requestMatches (agentRequest\<lparr>assignmentType := AssetServerType\<rparr>) (assignmentStore respawnState q)"
    by (simp add: respawnState_def requestMatches_def agentRequest_def staticAssignments_def)
  have v: "assignmentStore respawnState = staticAssignments" "uuidsCreated respawnState = 0"
    "sentPackets respawnState = []" "pendingAssignedNodes respawnState = []"
    "walletUUID agentRequest = 9" "nodeVersion agentRequest = ''v1''"
    "assignmentUuid (staticAssignments 2) = 0x12" "countingUuids 0 = 0x100"
    by (simp_all add: respawnState_def agentRequest_def staticAssignments_def countingUuids_def)
  from processRequestAssignmentPacket_deploys_first_match
         [of "[0x7F000001]" localhostOnly "(0x0A000001, 40102)" countingUuids agentRequest
             respawnState "[1]" 2 "[]"]
       processRequestAssignmentPacket_deploys_first_match
         [of "[0x7F000001]" localhostOnly "(0x7F000001, 40102)" countingUuids
             "agentRequest\<lparr>assignmentType := AssetServerType\<rparr>" respawnState "[1]" 2 "[]"]
       processRequestAssignmentPacket_deploys_first_match
         [of "[0x7F000001]" localhostOnly "(0x7F000001, 40102)" countingUuids agentRequest
             respawnState "[1]" 2 "[]"]
       a b q n y z
  show ?thesis
    by (simp add: v)
qed

section \<open>Respawn of static assignments\<close>

lemma nodeWithUUID_in_set: "nodeWithUUID nodes u = Some n \<Longrightarrow> n \<in> set nodes \<and> uuid n = u"
  by (auto simp: nodeWithUUID_def find_Some_iff)

lemma linkedData_modifyNodeData:
  "\<forall>n\<in>set nodes. linkedData n \<noteq> None \<Longrightarrow>
   \<forall>n\<in>set (modifyNodeData u f nodes). linkedData n \<noteq> None"
  by (auto simp: modifyNodeData_def)

lemma cleanupConnectionSecrets_total:
  "\<forall>n\<in>set nodes. linkedData n \<noteq> None \<Longrightarrow>
   \<exists>nodes'. cleanupConnectionSecrets dead keys nodes = Some nodes'"
proof (induction keys arbitrary: nodes)
  case Nil
  show ?case by simp
next
  case (Cons k keys)
  show ?case
  proof (cases "nodeWithUUID nodes k")
    case None
    then show ?thesis using Cons.IH [OF Cons.prems] by simp
  next
    case (Some other)
    then have "other \<in> set nodes" by (simp add: nodeWithUUID_in_set)
    with Cons.prems obtain d where d: "linkedData other = Some d" by auto
    from Cons.IH [OF linkedData_modifyNodeData [OF Cons.prems]] Some d
    show ?thesis by simp
  qed
qed

lemma deployableAssignmentForRequest_last:
  assumes "\<forall>q\<in>set queue. \<not> requestMatches req (assignmentStore st q)"
    and "requestMatches req (assignmentStore st p)"
    and "unfulfilledAssignments st = queue @ [p]"
  shows "deployableAssignmentForRequest req st = (Some p, st)"
  using deployableWalk_first [of queue req "assignmentStore st" p "[]" "[]"] assms
  by (simp add: deployableAssignmentForRequest_def)

lemma renameScript_moves:
  assumes "map_of files old = Some content" "map_of files new = None"
  shows "map_of (renameScript old new files) new = Some content"
    and "map_of (renameScript old new files) old = None"
  using assms
  by (auto simp: renameScript_def AList.update_conv' AList.delete_conv')

lemma refreshStatic_eq:
  "refreshStaticAssignmentAndAddToQueue gen p st =
     st\<lparr>uuidsCreated := Suc (uuidsCreated st),
        assignmentStore := (assignmentStore st)
           (p := (assignmentStore st p)\<lparr>assignmentUuid := gen (uuidsCreated st)\<rparr>),
        scriptFiles :=
          (if assignmentType (assignmentStore st p) = AgentType \<and> payload (assignmentStore st p) = []
           then renameScript (assignmentUuid (assignmentStore st p)) (gen (uuidsCreated st))
                  (scriptFiles st)
           else scriptFiles st),
        allAssignments := AList.update (gen (uuidsCreated st)) p (allAssignments st),
        unfulfilledAssignments := unfulfilledAssignments st @ [p]\<rparr>"
  by (simp add: refreshStaticAssignmentAndAddToQueue_def createUuid_def Let_def)

text \<open>
  C4 (as the code has it). When a node bound to a static assignment dies (every live node
  having linked data, the new UUID differing from the old one), the assignment leaves the
  all-assignments index under its old UUID and enters it under a freshly drawn one, the
  assignment object carries the new UUID, it is appended at the back of the unfulfilled queue,
  a scripted agent without payload has its script file renamed from the old to the new UUID, and
  a request that matches it and no entry queued before it fetches it.
\<close>

theorem nodeKilled_requeues_static_assignment:
  assumes "linkedData node = Some nd"
    and "assignmentUUID nd \<noteq> 0"
    and "map_of (allAssignments st) (assignmentUUID nd) = Some p"
    and "isStatic (assignmentStore st p)"
    and "\<forall>n\<in>set (nodeList st). linkedData n \<noteq> None"
    and "gen (uuidsCreated st) \<noteq> assignmentUUID nd"
  shows "\<exists>st'. nodeKilled gen node st = Some st' \<and>
           map_of (allAssignments st') (assignmentUUID nd) = None \<and>
           map_of (allAssignments st') (gen (uuidsCreated st)) = Some p \<and>
           assignmentStore st' p =
             (assignmentStore st p)\<lparr>assignmentUuid := gen (uuidsCreated st)\<rparr> \<and>
           unfulfilledAssignments st' = unfulfilledAssignments st @ [p] \<and>
           (assignmentType (assignmentStore st p) = AgentType \<and>
            payload (assignmentStore st p) = [] \<longrightarrow>
              scriptFiles st' =
                renameScript (assignmentUuid (assignmentStore st p)) (gen (uuidsCreated st))
                  (scriptFiles st)) \<and>
           (\<forall>req. requestMatches req (assignmentStore st' p) \<and>
                  (\<forall>q\<in>set (unfulfilledAssignments st).
                     \<not> requestMatches req (assignmentStore st' q)) \<longrightarrow>
                  fst (deployableAssignmentForRequest req st') = Some p)"
proof -
  let ?new = "gen (uuidsCreated st)"
  let ?st0 = "st\<lparr>allAssignments := AList.delete (assignmentUUID nd) (allAssignments st)\<rparr>"
  let ?st1 = "refreshStaticAssignmentAndAddToQueue gen p ?st0"
  have nl: "nodeList ?st1 = nodeList st"
    by (simp add: refreshStatic_eq)
  have "\<exists>nodes'. cleanupConnectionSecrets (uuid node)
      (map fst (sessionSecretHash nd)) (nodeList st) = Some nodes'"
    using assms(5) by (rule cleanupConnectionSecrets_total)
  then obtain nodes' where c: "cleanupConnectionSecrets (uuid node)
      (map fst (sessionSecretHash nd)) (nodeList ?st1) = Some nodes'"
    unfolding nl by blast
  let ?st' = "?st1\<lparr>nodeList := nodes'\<rparr>"
  have k: "nodeKilled gen node st = Some ?st'"
    using assms(1-4) c by (simp add: nodeKilled_def isNull_def Let_def)
  have 1: "map_of (allAssignments ?st') (assignmentUUID nd) = None"
    using assms(6) by (simp add: refreshStatic_eq AList.update_conv' AList.delete_conv')
  have 2: "map_of (allAssignments ?st') ?new = Some p"
    by (simp add: refreshStatic_eq AList.update_conv')
  have 3: "assignmentStore ?st' p = (assignmentStore st p)\<lparr>assignmentUuid := ?new\<rparr>"
    by (simp add: refreshStatic_eq)
  have 4: "unfulfilledAssignments ?st' = unfulfilledAssignments st @ [p]"
    by (simp add: refreshStatic_eq)
  have 5: "assignmentType (assignmentStore st p) = AgentType \<and>
            payload (assignmentStore st p) = [] \<longrightarrow>
              scriptFiles ?st' =
                renameScript (assignmentUuid (assignmentStore st p)) ?new (scriptFiles st)"
    by (simp add: refreshStatic_eq)
  have 6: "\<forall>req. requestMatches req (assignmentStore ?st' p) \<and>
                  (\<forall>q\<in>set (unfulfilledAssignments st).
                     \<not> requestMatches req (assignmentStore ?st' q)) \<longrightarrow>
                  fst (deployableAssignmentForRequest req ?st') = Some p"
  proof (intro allI impI)
    fix req
    assume a: "requestMatches req (assignmentStore ?st' p) \<and>
                  (\<forall>q\<in>set (unfulfilledAssignments st).
                     \<not> requestMatches req (assignmentStore ?st' q))"
    show "fst (deployableAssignmentForRequest req ?st') = Some p"
      using deployableAssignmentForRequest_last [of "unfulfilledAssignments st" req ?st' p] a 4
      by simp
  qed
  from k 1 2 3 4 5 6 show ?thesis by blast
qed

text \<open>
  C4 as stated fails: when the first audio mixer dies while the second one waits in the queue,
  the respawned assignment stands behind the waiting mixer (and behind the agent), not at the
  front of its type class.
\<close>

theorem nodeKilled_requeues_at_back_counterexample:
  "nodeKilled countingUuids deadMixer respawnState = Some respawnedState \<and>
   \<not> frontOfTypeClass respawnedState 0"
proof -
  have "nodeKilled countingUuids deadMixer respawnState = Some respawnedState"
    by (simp add: nodeKilled_def deadMixer_def respawnState_def respawnedState_def
        newNodeData_def isNull_def staticAssignments_def refreshStatic_eq countingUuids_def)
  moreover have "\<not> frontOfTypeClass respawnedState 0"
    by (simp add: frontOfTypeClass_def respawnedState_def respawnState_def staticAssignments_def)
  ultimately show ?thesis by simp
qed

theorem nodeKilled_requeues_static_assignment_witness:
  "linkedData deadAgent = Some (newNodeData\<lparr>assignmentUUID := 0x12, wasAssigned := True\<rparr>) \<and>
   map_of (allAssignments (respawnState\<lparr>unfulfilledAssignments := [1]\<rparr>)) 0x12 = Some 2 \<and>
   isStatic (assignmentStore (respawnState\<lparr>unfulfilledAssignments := [1]\<rparr>) 2) \<and>
   (\<exists>st'. nodeKilled countingUuids deadAgent (respawnState\<lparr>unfulfilledAssignments := [1]\<rparr>) = Some st' \<and>
      map_of (allAssignments st') 0x12 = None \<and>
      map_of (allAssignments st') 0x100 = Some 2 \<and>
      assignmentUuid (assignmentStore st' 2) = 0x100 \<and>
      unfulfilledAssignments st' = [1, 2] \<and>
      scriptFiles st' = [(0x100, ''print(1)'')] \<and>
      fst (deployableAssignmentForRequest agentRequest st') = Some 2)"
proof -
  let ?nd = "newNodeData\<lparr>assignmentUUID := 0x12, wasAssigned := True\<rparr>"
  let ?st = "respawnState\<lparr>unfulfilledAssignments := [1]\<rparr>"
  have h: "linkedData deadAgent = Some ?nd" "assignmentUUID ?nd \<noteq> 0"
    "map_of (allAssignments ?st) (assignmentUUID ?nd) = Some 2"
    "isStatic (assignmentStore ?st 2)"
    "\<forall>n\<in>set (nodeList ?st). linkedData n \<noteq> None"
    "countingUuids (uuidsCreated ?st) \<noteq> assignmentUUID ?nd"
    by (simp_all add: deadAgent_def newNodeData_def respawnState_def staticAssignments_def
        countingUuids_def)
  have v: "assignmentUUID ?nd = 0x12" "countingUuids (uuidsCreated ?st) = 0x100"
    "unfulfilledAssignments ?st = [1]"
    "assignmentType (assignmentStore ?st 2) = AgentType" "payload (assignmentStore ?st 2) = []"
    "renameScript (assignmentUuid (assignmentStore ?st 2)) 0x100 (scriptFiles ?st)
       = [(0x100, ''print(1)'')]"
    "requestMatches agentRequest ((assignmentStore ?st 2)\<lparr>assignmentUuid := 0x100\<rparr>)"
    by (simp_all add: newNodeData_def respawnState_def staticAssignments_def countingUuids_def
        renameScript_def requestMatches_def agentRequest_def)
  from nodeKilled_requeues_static_assignment [where gen = countingUuids, OF h]
  obtain st' where s: "nodeKilled countingUuids deadAgent ?st = Some st'"
    "map_of (allAssignments st') (assignmentUUID ?nd) = None"
    "map_of (allAssignments st') (countingUuids (uuidsCreated ?st)) = Some 2"
    "assignmentStore st' 2 =
       (assignmentStore ?st 2)\<lparr>assignmentUuid := countingUuids (uuidsCreated ?st)\<rparr>"
    "unfulfilledAssignments st' = unfulfilledAssignments ?st @ [2]"
    "assignmentType (assignmentStore ?st 2) = AgentType \<and> payload (assignmentStore ?st 2) = [] \<longrightarrow>
       scriptFiles st' = renameScript (assignmentUuid (assignmentStore ?st 2))
          (countingUuids (uuidsCreated ?st)) (scriptFiles ?st)"
    "\<forall>req. requestMatches req (assignmentStore st' 2) \<and>
        (\<forall>q\<in>set (unfulfilledAssignments ?st). \<not> requestMatches req (assignmentStore st' q)) \<longrightarrow>
        fst (deployableAssignmentForRequest req st') = Some 2"
    by blast
  have st1: "assignmentStore st' 1 = staticAssignments 1"
    using s(1)
    by (auto simp: nodeKilled_def deadAgent_def respawnState_def newNodeData_def isNull_def
        staticAssignments_def refreshStatic_eq)
  have m: "requestMatches agentRequest (assignmentStore st' 2)"
    by (simp add: s(4) respawnState_def staticAssignments_def countingUuids_def
        requestMatches_def agentRequest_def)
  have n: "\<forall>q\<in>set (unfulfilledAssignments ?st). \<not> requestMatches agentRequest (assignmentStore st' q)"
    using st1 by (simp add: v(3) requestMatches_def agentRequest_def staticAssignments_def)
  from s(7) m n have f: "fst (deployableAssignmentForRequest agentRequest st') = Some 2"
    by blast
  have u: "uuidsCreated respawnState = 0" "countingUuids 0 = 0x100"
    "assignmentStore respawnState = staticAssignments"
    "scriptFiles respawnState = [(0x12, ''print(1)'')]"
    by (simp_all add: respawnState_def countingUuids_def)
  have r: "scriptFiles st' = [(0x100, ''print(1)'')]"
    using s(6) by (simp add: u staticAssignments_def renameScript_def)
  show ?thesis
    using h(1,3,4) s(1-5) r f
    by (intro conjI exI [of _ st']) (simp_all add: u newNodeData_def)
qed

section \<open>Session secrets\<close>

subsection \<open>Lookup and update\<close>

lemma nodeWithUUID_Nil [simp]: "nodeWithUUID [] u = None"
  by (simp add: nodeWithUUID_def)

lemma nodeWithUUID_Cons [simp]:
  "nodeWithUUID (n # ns) u = (if uuid n = u then Some n else nodeWithUUID ns u)"
  by (simp add: nodeWithUUID_def)

lemma nodeWithUUID_None_iff: "nodeWithUUID nodes u = None \<longleftrightarrow> u \<notin> uuid ` set nodes"
  by (induction nodes) auto

lemma nodeWithUUID_distinct:
  "distinct (map uuid nodes) \<Longrightarrow> n \<in> set nodes \<Longrightarrow> nodeWithUUID nodes (uuid n) = Some n"
  by (induction nodes) auto

lemma nodeWithUUID_modify:
  "nodeWithUUID (modifyNodeData u f nodes) x =
     map_option (\<lambda>n. if uuid n = u then n\<lparr>linkedData := map_option f (linkedData n)\<rparr> else n)
       (nodeWithUUID nodes x)"
  by (induction nodes) (auto simp: modifyNodeData_def)

lemma nodeDataOf_modify:
  "nodeDataOf (modifyNodeData u f nodes) x =
     (if x = u then map_option f (nodeDataOf nodes x) else nodeDataOf nodes x)"
  by (auto simp: nodeDataOf_def nodeWithUUID_modify nodeWithUUID_in_set split: option.splits)

lemma uuid_modify [simp]: "map uuid (modifyNodeData u f nodes) = map uuid nodes"
  by (simp add: modifyNodeData_def)

lemma secretOf_modify:
  "secretOf (modifyNodeData u f nodes) x y =
     (if x = u then
        (case nodeDataOf nodes x of None \<Rightarrow> None | Some d \<Rightarrow> map_of (sessionSecretHash (f d)) y)
      else secretOf nodes x y)"
  by (simp add: secretOf_def nodeDataOf_modify split: option.splits)

lemma secretOf_not_live: "nodeWithUUID nodes x = None \<Longrightarrow> secretOf nodes x y = None"
  by (simp add: secretOf_def nodeDataOf_def)

lemma nodeDataOf_member:
  "distinct (map uuid nodes) \<Longrightarrow> n \<in> set nodes \<Longrightarrow> nodeDataOf nodes (uuid n) = linkedData n"
  by (simp add: nodeDataOf_def nodeWithUUID_distinct)

lemma nodeDataOf_Some_member:
  "nodeDataOf nodes x = Some d \<Longrightarrow> \<exists>n\<in>set nodes. uuid n = x \<and> linkedData n = Some d"
  by (auto simp: nodeDataOf_def split: option.splits dest: nodeWithUUID_in_set)

subsection \<open>The invariant, seen through the secrets\<close>

lemma registryInv_iff:
  "registryInv nodes \<longleftrightarrow>
     distinct (map uuid nodes) \<and> allLinked nodes \<and>
     (\<forall>x y. secretOf nodes x y = secretOf nodes y x) \<and>
     (\<forall>x y. secretOf nodes x y \<noteq> Some 0)"
  (is "?L \<longleftrightarrow> ?R")
proof
  assume L: ?L
  then have dist: "distinct (map uuid nodes)"
    and each: "\<And>n. n \<in> set nodes \<Longrightarrow>
         (case linkedData n of None \<Rightarrow> False
          | Some d \<Rightarrow> (\<forall>k\<in>set (map fst (sessionSecretHash d)).
               secretOf nodes k (uuid n) = map_of (sessionSecretHash d) k \<and>
               map_of (sessionSecretHash d) k \<noteq> Some 0))"
    by (auto simp: registryInv_def)
  have linked: "allLinked nodes"
    unfolding allLinked_def
  proof
    fix n assume "n \<in> set nodes"
    from each [OF this] show "linkedData n \<noteq> None"
      by (cases "linkedData n") simp_all
  qed
  have key: "secretOf nodes y x = Some v \<and> v \<noteq> 0" if "secretOf nodes x y = Some v" for x y v
  proof -
    from that obtain d where d: "nodeDataOf nodes x = Some d" "map_of (sessionSecretHash d) y = Some v"
      by (auto simp: secretOf_def split: option.splits)
    from d(1) obtain n where n: "n \<in> set nodes" "uuid n = x" "linkedData n = Some d"
      using nodeDataOf_Some_member by blast
    from d(2) have "y \<in> set (map fst (sessionSecretHash d))"
      by (metis map_of_eq_None_iff option.distinct(1) set_map)
    with each [OF n(1)] n d(2) show ?thesis by auto
  qed
  have sym: "secretOf nodes x y = secretOf nodes y x" for x y
  proof (cases "secretOf nodes x y")
    case None
    show ?thesis
    proof (cases "secretOf nodes y x")
      case None
      with \<open>secretOf nodes x y = None\<close> show ?thesis by simp
    next
      case (Some v)
      from key [OF this] None show ?thesis by simp
    qed
  next
    case (Some v)
    from key [OF this] Some show ?thesis by simp
  qed
  have nonnull: "secretOf nodes x y \<noteq> Some 0" for x y
    using key [of x y 0] by auto
  from dist linked sym nonnull show ?R by blast
next
  assume R: ?R
  then have dist: "distinct (map uuid nodes)" and linked: "allLinked nodes"
    and sym: "\<And>x y. secretOf nodes x y = secretOf nodes y x"
    and nonnull: "\<And>x y. secretOf nodes x y \<noteq> Some 0"
    by auto
  have "case linkedData n of None \<Rightarrow> False
          | Some d \<Rightarrow> (\<forall>k\<in>set (map fst (sessionSecretHash d)).
               secretOf nodes k (uuid n) = map_of (sessionSecretHash d) k \<and>
               map_of (sessionSecretHash d) k \<noteq> Some 0)" if n: "n \<in> set nodes" for n
  proof -
    from linked n obtain d where d: "linkedData n = Some d"
      by (auto simp: allLinked_def)
    have s: "secretOf nodes (uuid n) k = map_of (sessionSecretHash d) k" for k
      using nodeDataOf_member [OF dist n] d by (simp add: secretOf_def)
    show ?thesis
      using sym [of _ "uuid n"] nonnull [of "uuid n"] by (simp add: d s)
  qed
  with dist show ?L
    by (simp add: registryInv_def)
qed

subsection \<open>What \<open>connectionSecretForNodes\<close> does\<close>

lemma allLinked_modify [simp]: "allLinked (modifyNodeData u f nodes) = allLinked nodes"
  by (induction nodes) (auto simp: allLinked_def modifyNodeData_def)

lemma nodeDataOf_allLinked:
  "allLinked nodes \<Longrightarrow> nodeWithUUID nodes u \<noteq> None \<Longrightarrow> nodeDataOf nodes u \<noteq> None"
  by (cases "nodeWithUUID nodes u") (auto simp: allLinked_def nodeDataOf_def dest!: nodeWithUUID_in_set)

lemma connectionSecretForNodes_no_data:
  "nodeDataOf (nodeList st) a = None \<or> nodeDataOf (nodeList st) b = None \<Longrightarrow>
   connectionSecretForNodes gen a b st = (0, st)"
  by (auto simp: connectionSecretForNodes_def split: option.splits)

lemma connectionSecretForNodes_existing:
  assumes "nodeDataOf (nodeList st) b \<noteq> None"
    and "secretOf (nodeList st) a b = Some v" and "v \<noteq> 0"
  shows "connectionSecretForNodes gen a b st = (v, st)"
  using assms
  by (auto simp: connectionSecretForNodes_def secretOf_def isNull_def split: option.splits)

lemma connectionSecretForNodes_generate:
  assumes "nodeDataOf (nodeList st) a \<noteq> None" and "nodeDataOf (nodeList st) b \<noteq> None"
    and "secretOf (nodeList st) a b = None \<or> secretOf (nodeList st) a b = Some 0"
  shows "connectionSecretForNodes gen a b st =
           (gen (uuidsCreated st),
            st\<lparr>uuidsCreated := Suc (uuidsCreated st),
               nodeList := storeSecret a b (gen (uuidsCreated st)) (nodeList st)\<rparr>)"
  using assms
  by (auto simp: connectionSecretForNodes_def secretOf_def isNull_def createUuid_def
      storeSecret_def Let_def split: option.splits)

lemma secretOf_storeSecret:
  assumes "nodeDataOf nodes a \<noteq> None" and "nodeDataOf nodes b \<noteq> None"
  shows "secretOf (storeSecret a b s nodes) x y =
           (if (x = a \<and> y = b) \<or> (x = b \<and> y = a) then Some s else secretOf nodes x y)"
  using assms
  by (auto simp: storeSecret_def secretOf_def nodeDataOf_modify AList.update_conv'
      split: option.splits)

lemma storeSecret_uuid [simp]: "map uuid (storeSecret a b s nodes) = map uuid nodes"
  by (simp add: storeSecret_def)

lemma storeSecret_allLinked [simp]: "allLinked (storeSecret a b s nodes) = allLinked nodes"
  by (simp add: storeSecret_def)

lemma registryInv_storeSecret:
  assumes inv: "registryInv nodes"
    and a: "nodeDataOf nodes a \<noteq> None" and b: "nodeDataOf nodes b \<noteq> None"
    and s: "s \<noteq> 0"
  shows "registryInv (storeSecret a b s nodes)"
proof -
  from inv have dist: "distinct (map uuid nodes)" and linked: "allLinked nodes"
    and sym: "\<And>x y. secretOf nodes x y = secretOf nodes y x"
    and nonnull: "\<And>x y. secretOf nodes x y \<noteq> Some 0"
    by (simp_all add: registryInv_iff)
  show ?thesis
    unfolding registryInv_iff
  proof (intro conjI allI)
    show "distinct (map uuid (storeSecret a b s nodes))" using dist by simp
    show "allLinked (storeSecret a b s nodes)" using linked by simp
    show "secretOf (storeSecret a b s nodes) x y = secretOf (storeSecret a b s nodes) y x" for x y
      using sym [of x y] by (auto simp: secretOf_storeSecret [OF a b])
    show "secretOf (storeSecret a b s nodes) x y \<noteq> Some 0" for x y
      using nonnull [of x y] s by (auto simp: secretOf_storeSecret [OF a b])
  qed
qed

lemma connectionSecretForNodes_cases:
  obtains (unchanged) v where "connectionSecretForNodes gen a b st = (v, st)"
      "nodeDataOf (nodeList st) a = None \<or> nodeDataOf (nodeList st) b = None
         \<or> (secretOf (nodeList st) a b = Some v \<and> v \<noteq> 0)"
  | (generated) "nodeDataOf (nodeList st) a \<noteq> None" "nodeDataOf (nodeList st) b \<noteq> None"
      "secretOf (nodeList st) a b = None \<or> secretOf (nodeList st) a b = Some 0"
      "connectionSecretForNodes gen a b st =
           (gen (uuidsCreated st),
            st\<lparr>uuidsCreated := Suc (uuidsCreated st),
               nodeList := storeSecret a b (gen (uuidsCreated st)) (nodeList st)\<rparr>)"
proof (cases "nodeDataOf (nodeList st) a = None \<or> nodeDataOf (nodeList st) b = None")
  case True
  then show ?thesis
    using connectionSecretForNodes_no_data [of st a b gen] unchanged by blast
next
  case False
  then have ab: "nodeDataOf (nodeList st) a \<noteq> None" "nodeDataOf (nodeList st) b \<noteq> None"
    by auto
  show ?thesis
  proof (cases "secretOf (nodeList st) a b = None \<or> secretOf (nodeList st) a b = Some 0")
    case True
    from generated [OF ab True connectionSecretForNodes_generate [OF ab True]]
    show ?thesis .
  next
    case False
    then obtain v where v: "secretOf (nodeList st) a b = Some v" "v \<noteq> 0" by auto
    from connectionSecretForNodes_existing [OF ab(2) v] v unchanged show ?thesis by blast
  qed
qed

lemma connectionSecretForNodes_inv:
  assumes "registryInv (nodeList st)" and "\<forall>k. gen k \<noteq> 0"
  shows "registryInv (nodeList (snd (connectionSecretForNodes gen a b st)))"
proof (cases rule: connectionSecretForNodes_cases [of gen a b st])
  case (unchanged v)
  with assms(1) show ?thesis by simp
next
  case generated
  with assms show ?thesis
    by (simp add: registryInv_storeSecret)
qed

lemma connectionSecretForNodes_keeps:
  assumes inv: "registryInv (nodeList st)"
    and old: "secretOf (nodeList st) x y = Some v"
  shows "secretOf (nodeList (snd (connectionSecretForNodes gen a b st))) x y = Some v"
proof (cases rule: connectionSecretForNodes_cases [of gen a b st])
  case (unchanged v)
  with old show ?thesis by simp
next
  case generated
  from inv have sym: "\<And>x y. secretOf (nodeList st) x y = secretOf (nodeList st) y x"
    and nonnull: "\<And>x y. secretOf (nodeList st) x y \<noteq> Some 0"
    by (simp_all add: registryInv_iff)
  have "\<not> ((x = a \<and> y = b) \<or> (x = b \<and> y = a))"
    using generated(3) old sym [of a b] nonnull [of a b] by auto
  with generated old show ?thesis
    by (auto simp: secretOf_storeSecret)
qed

lemma connectionSecretForNodes_live:
  "map uuid (nodeList (snd (connectionSecretForNodes gen a b st))) = map uuid (nodeList st)"
  by (cases rule: connectionSecretForNodes_cases [of gen a b st]) simp_all

lemma connectionSecretForNodes_result:
  assumes inv: "registryInv (nodeList st)" and gen: "\<forall>k. gen k \<noteq> 0"
    and a: "nodeWithUUID (nodeList st) a \<noteq> None" and b: "nodeWithUUID (nodeList st) b \<noteq> None"
  shows "fst (connectionSecretForNodes gen a b st) \<noteq> 0"
    and "secretOf (nodeList (snd (connectionSecretForNodes gen a b st))) a b
           = Some (fst (connectionSecretForNodes gen a b st))"
    and "secretOf (nodeList (snd (connectionSecretForNodes gen a b st))) b a
           = Some (fst (connectionSecretForNodes gen a b st))"
    and "secretOf (nodeList st) a b = None \<Longrightarrow>
           fst (connectionSecretForNodes gen a b st) = gen (uuidsCreated st)"
    and "secretOf (nodeList st) a b = Some v \<Longrightarrow>
           connectionSecretForNodes gen a b st = (v, st)"
proof -
  from inv have linked: "allLinked (nodeList st)"
    and sym: "\<And>x y. secretOf (nodeList st) x y = secretOf (nodeList st) y x"
    and nonnull: "\<And>x y. secretOf (nodeList st) x y \<noteq> Some 0"
    by (simp_all add: registryInv_iff)
  have da: "nodeDataOf (nodeList st) a \<noteq> None" and db: "nodeDataOf (nodeList st) b \<noteq> None"
    using linked a b by (simp_all add: nodeDataOf_allLinked)
  show "fst (connectionSecretForNodes gen a b st) \<noteq> 0"
    using da db gen by (cases rule: connectionSecretForNodes_cases [of gen a b st]) auto
  show "secretOf (nodeList (snd (connectionSecretForNodes gen a b st))) a b
           = Some (fst (connectionSecretForNodes gen a b st))"
    using da db by (cases rule: connectionSecretForNodes_cases [of gen a b st])
      (auto simp: secretOf_storeSecret)
  show "secretOf (nodeList (snd (connectionSecretForNodes gen a b st))) b a
           = Some (fst (connectionSecretForNodes gen a b st))"
    using da db sym [of a b] by (cases rule: connectionSecretForNodes_cases [of gen a b st])
      (auto simp: secretOf_storeSecret)
  show "fst (connectionSecretForNodes gen a b st) = gen (uuidsCreated st)"
    if "secretOf (nodeList st) a b = None"
    using da db that by (cases rule: connectionSecretForNodes_cases [of gen a b st]) auto
  show "connectionSecretForNodes gen a b st = (v, st)" if "secretOf (nodeList st) a b = Some v"
    using connectionSecretForNodes_existing [OF db that] nonnull [of a b] that by auto
qed

subsection \<open>Killing a node\<close>

lemma cleanupConnectionSecrets_effect:
  assumes "allLinked nodes"
  shows "\<exists>nodes'. cleanupConnectionSecrets dead keys nodes = Some nodes' \<and>
           map uuid nodes' = map uuid nodes \<and> allLinked nodes' \<and>
           (\<forall>x y. secretOf nodes' x y =
                    (if y = dead \<and> x \<in> set keys then None else secretOf nodes x y))"
  using assms
proof (induction keys arbitrary: nodes)
  case Nil
  then show ?case by simp
next
  case (Cons k keys)
  show ?case
  proof (cases "nodeWithUUID nodes k")
    case None
    then have "secretOf nodes k y = None" for y
      by (simp add: secretOf_not_live)
    with Cons.IH [OF Cons.prems] None show ?thesis
      by auto
  next
    case (Some other)
    let ?nodes1 = "modifyNodeData k
        (\<lambda>d. d\<lparr>sessionSecretHash := AList.delete dead (sessionSecretHash d)\<rparr>) nodes"
    from Some have "other \<in> set nodes" by (simp add: nodeWithUUID_in_set)
    with Cons.prems obtain d where d: "linkedData other = Some d"
      by (auto simp: allLinked_def)
    have l1: "allLinked ?nodes1" using Cons.prems by simp
    have s1: "secretOf ?nodes1 x y = (if y = dead \<and> x = k then None else secretOf nodes x y)"
      for x y
      unfolding secretOf_modify
      by (simp add: secretOf_def AList.delete_conv' split: option.splits)
    from Cons.IH [OF l1] obtain nodes' where n:
      "cleanupConnectionSecrets dead keys ?nodes1 = Some nodes'"
      "map uuid nodes' = map uuid ?nodes1" "allLinked nodes'"
      "\<forall>x y. secretOf nodes' x y =
          (if y = dead \<and> x \<in> set keys then None else secretOf ?nodes1 x y)"
      by blast
    have "cleanupConnectionSecrets dead (k # keys) nodes = Some nodes'"
      using Some d n(1) by simp
    moreover have "map uuid nodes' = map uuid nodes" using n(2) by simp
    moreover have "\<forall>x y. secretOf nodes' x y =
          (if y = dead \<and> x \<in> set (k # keys) then None else secretOf nodes x y)"
      using n(4) by (auto simp: s1)
    ultimately show ?thesis using n(3) by blast
  qed
qed

lemma secretOf_keys:
  "nodeDataOf nodes x = Some d \<Longrightarrow>
   (y \<in> set (map fst (sessionSecretHash d))) = (secretOf nodes x y \<noteq> None)"
  by (simp add: secretOf_def map_of_eq_None_iff)

lemma nodeList_refreshStatic [simp]:
  "nodeList (refreshStaticAssignmentAndAddToQueue gen p st) = nodeList st"
  by (simp add: refreshStatic_eq)

lemma nodeKilled_effect:
  assumes linked: "allLinked (nodeList st)" and d: "linkedData node = Some d"
  shows "\<exists>st'. nodeKilled gen node st = Some st' \<and>
           map uuid (nodeList st') = map uuid (nodeList st) \<and> allLinked (nodeList st') \<and>
           (\<forall>x y. secretOf (nodeList st') x y =
                    (if y = uuid node \<and> x \<in> set (map fst (sessionSecretHash d)) then None
                     else secretOf (nodeList st) x y))"
proof -
  define st1 where "st1 =
                (if \<not> isNull (assignmentUUID d) then
                   (case map_of (allAssignments st) (assignmentUUID d) of
                      None \<Rightarrow> st
                    | Some matchedAssignment \<Rightarrow>
                       (let st' = st\<lparr>allAssignments :=
                                       AList.delete (assignmentUUID d) (allAssignments st)\<rparr>
                        in if isStatic (assignmentStore st' matchedAssignment)
                           then refreshStaticAssignmentAndAddToQueue gen matchedAssignment st'
                           else st'))
                 else st)"
  have nl: "nodeList st1 = nodeList st"
    by (simp add: st1_def Let_def split: option.splits)
  have k: "nodeKilled gen node st =
             map_option (\<lambda>nodes. st1\<lparr>nodeList := nodes\<rparr>)
               (cleanupConnectionSecrets (uuid node)
                  (map fst (sessionSecretHash d)) (nodeList st))"
    using d by (simp add: nodeKilled_def st1_def [symmetric] nl Let_def)
  from cleanupConnectionSecrets_effect [OF linked, of "uuid node" "map fst (sessionSecretHash d)"]
  obtain nodes' where n:
    "cleanupConnectionSecrets (uuid node) (map fst (sessionSecretHash d)) (nodeList st) = Some nodes'"
    "map uuid nodes' = map uuid (nodeList st)" "allLinked nodes'"
    "\<forall>x y. secretOf nodes' x y =
        (if y = uuid node \<and> x \<in> set (map fst (sessionSecretHash d)) then None
         else secretOf (nodeList st) x y)"
    by blast
  show ?thesis
    using n by (intro exI [of _ "st1\<lparr>nodeList := nodes'\<rparr>"]) (simp add: k)
qed

lemma nodeWithUUID_filter:
  "nodeWithUUID (filter (\<lambda>n. uuid n \<noteq> u) nodes) x =
     (if x = u then None else nodeWithUUID nodes x)"
  by (induction nodes) auto

lemma secretOf_filter:
  "secretOf (filter (\<lambda>n. uuid n \<noteq> u) nodes) x y = (if x = u then None else secretOf nodes x y)"
  by (simp add: secretOf_def nodeDataOf_def nodeWithUUID_filter)

lemma allLinked_filter: "allLinked nodes \<Longrightarrow> allLinked (filter P nodes)"
  by (simp add: allLinked_def)

lemma killNodeWithUUID_effect:
  assumes inv: "registryInv (nodeList st)"
  shows "\<exists>st'. killNodeWithUUID gen u st = Some st' \<and>
           map uuid (nodeList st') = filter (\<lambda>k. k \<noteq> u) (map uuid (nodeList st)) \<and>
           registryInv (nodeList st') \<and>
           (\<forall>x y. secretOf (nodeList st') x y =
                    (if x = u \<or> y = u then None else secretOf (nodeList st) x y))"
proof -
  from inv have dist: "distinct (map uuid (nodeList st))" and linked: "allLinked (nodeList st)"
    and sym: "\<And>x y. secretOf (nodeList st) x y = secretOf (nodeList st) y x"
    and nonnull: "\<And>x y. secretOf (nodeList st) x y \<noteq> Some 0"
    by (simp_all add: registryInv_iff)
  show ?thesis
  proof (cases "nodeWithUUID (nodeList st) u")
    case None
    then have nu: "u \<notin> uuid ` set (nodeList st)"
      by (simp add: nodeWithUUID_None_iff)
    have s: "secretOf (nodeList st) x y = None" if "x = u \<or> y = u" for x y
      using that None sym [of x y] by (auto simp: secretOf_not_live)
    have f: "filter (\<lambda>k. k \<noteq> u) (map uuid (nodeList st)) = map uuid (nodeList st)"
      using nu by (auto simp: filter_id_conv)
    show ?thesis
      using None inv s by (auto simp: killNodeWithUUID_def f)
  next
    case (Some node)
    then have node: "node \<in> set (nodeList st)" "uuid node = u"
      by (simp_all add: nodeWithUUID_in_set)
    with linked obtain d where d: "linkedData node = Some d"
      by (auto simp: allLinked_def)
    have du: "nodeDataOf (nodeList st) u = Some d"
      using Some d by (simp add: nodeDataOf_def)
    let ?st0 = "st\<lparr>nodeList := filter (\<lambda>n. uuid n \<noteq> u) (nodeList st)\<rparr>"
    have l0: "allLinked (nodeList ?st0)"
      using linked by (simp add: allLinked_filter)
    from nodeKilled_effect [OF l0 d, of gen] obtain st' where k:
      "nodeKilled gen node ?st0 = Some st'"
      "map uuid (nodeList st') = map uuid (nodeList ?st0)" "allLinked (nodeList st')"
      "\<forall>x y. secretOf (nodeList st') x y =
                    (if y = uuid node \<and> x \<in> set (map fst (sessionSecretHash d)) then None
                     else secretOf (nodeList ?st0) x y)"
      by blast
    have sec: "secretOf (nodeList st') x y =
                 (if x = u \<or> y = u then None else secretOf (nodeList st) x y)" for x y
    proof -
      have "x \<in> set (map fst (sessionSecretHash d)) \<longleftrightarrow> secretOf (nodeList st) x u \<noteq> None"
        using secretOf_keys [OF du, of x] sym [of x u] by simp
      then show ?thesis
        using k(4) node(2) by (auto simp: secretOf_filter)
    qed
    have u: "map uuid (nodeList st') = filter (\<lambda>k. k \<noteq> u) (map uuid (nodeList st))"
      using k(2) by (simp add: filter_map comp_def)
    have "registryInv (nodeList st')"
      unfolding registryInv_iff
    proof (intro conjI allI)
      show "distinct (map uuid (nodeList st'))" using dist by (simp add: u)
      show "allLinked (nodeList st')" by (rule k(3))
      show "secretOf (nodeList st') x y = secretOf (nodeList st') y x" for x y
        using sym [of x y] by (auto simp: sec)
      show "secretOf (nodeList st') x y \<noteq> Some 0" for x y
        using nonnull [of x y] by (simp add: sec)
    qed
    then show ?thesis
      using Some k(1) u sec by (auto simp: killNodeWithUUID_def)
  qed
qed

subsection \<open>Loops over \<open>connectionSecretForNodes\<close>\<close>

lemma keepsSecrets_refl [simp]: "keepsSecrets nodes nodes"
  by (simp add: keepsSecrets_def)

lemma keepsSecrets_trans:
  "keepsSecrets n1 n2 \<Longrightarrow> keepsSecrets n2 n3 \<Longrightarrow> keepsSecrets n1 n3"
proof -
  assume a: "keepsSecrets n1 n2" and b: "keepsSecrets n2 n3"
  from a have a1: "uuid ` set n1 \<subseteq> uuid ` set n2"
    and a2: "\<And>x y v. secretOf n1 x y = Some v \<Longrightarrow> secretOf n2 x y = Some v"
    by (simp_all add: keepsSecrets_def)
  from b have b1: "uuid ` set n2 \<subseteq> uuid ` set n3"
    and b2: "\<And>x y v. secretOf n2 x y = Some v \<Longrightarrow> secretOf n3 x y = Some v"
    by (simp_all add: keepsSecrets_def)
  from a1 b1 have "uuid ` set n1 \<subseteq> uuid ` set n3" by (rule subset_trans)
  then show ?thesis
    using a2 b2 by (simp add: keepsSecrets_def)
qed

lemma connectionSecretForNodes_keepsSecrets:
  assumes "registryInv (nodeList st)"
  shows "keepsSecrets (nodeList st) (nodeList (snd (connectionSecretForNodes gen a b st)))"
proof -
  have l: "uuid ` set (nodeList (snd (connectionSecretForNodes gen a b st)))
          = uuid ` set (nodeList st)"
    using connectionSecretForNodes_live [of gen a b st] by (metis set_map)
  show ?thesis
    unfolding keepsSecrets_def
  proof (intro conjI allI impI)
    show "uuid ` set (nodeList st)
            \<subseteq> uuid ` set (nodeList (snd (connectionSecretForNodes gen a b st)))"
      by (simp add: l)
    fix x y v assume "secretOf (nodeList st) x y = Some v"
    then show "secretOf (nodeList (snd (connectionSecretForNodes gen a b st))) x y = Some v"
      by (rule connectionSecretForNodes_keeps [OF assms])
  qed
qed

lemma nodeList_sendPacket [simp]: "nodeList (sendPacket pkt st) = nodeList st"
  by (simp add: sendPacket_def)

lemma domainListSegments_inv:
  assumes "registryInv (nodeList st)" and "\<forall>k. gen k \<noteq> 0"
  shows "registryInv (nodeList (snd (domainListSegments gen u others st))) \<and>
         keepsSecrets (nodeList st) (nodeList (snd (domainListSegments gen u others st)))"
  using assms(1)
proof (induction others arbitrary: st)
  case Nil
  then show ?case by simp
next
  case (Cons other rest)
  show ?case
  proof (cases "other \<noteq> u \<and> isInInterestSet (nodeList st) u other")
    case False
    then show ?thesis using Cons.IH [OF Cons.prems] by auto
  next
    case True
    obtain secret st1 where c: "connectionSecretForNodes gen u other st = (secret, st1)"
      by (cases "connectionSecretForNodes gen u other st")
    have i1: "registryInv (nodeList st1)"
      using connectionSecretForNodes_inv [OF Cons.prems assms(2), of u other] c by simp
    have k1: "keepsSecrets (nodeList st) (nodeList st1)"
      using connectionSecretForNodes_keepsSecrets [OF Cons.prems, of gen u other] c by simp
    obtain segments st2 where d: "domainListSegments gen u rest st1 = (segments, st2)"
      by (cases "domainListSegments gen u rest st1")
    from Cons.IH [OF i1] d have i2: "registryInv (nodeList st2)"
      and k2: "keepsSecrets (nodeList st1) (nodeList st2)"
      by simp_all
    have r: "snd (domainListSegments gen u (other # rest) st) = st2"
      using True c d by simp
    show ?thesis
      unfolding r using i2 keepsSecrets_trans [OF k1 k2] by simp
  qed
qed

lemma sendDomainListToNode_inv:
  assumes "registryInv (nodeList st)" and "\<forall>k. gen k \<noteq> 0"
    and "nodeWithUUID (nodeList st) u \<noteq> None"
  shows "\<exists>st'. sendDomainListToNode gen u st = Some st' \<and> registryInv (nodeList st') \<and>
           keepsSecrets (nodeList st) (nodeList st')"
proof -
  from assms(1) have "allLinked (nodeList st)" by (simp add: registryInv_iff)
  with assms(3) obtain d where d: "nodeDataOf (nodeList st) u = Some d"
    using nodeDataOf_allLinked by blast
  obtain segments st1 where s:
    "domainListSegments gen u (map uuid (nodeList st)) st = (segments, st1)"
    by (cases "domainListSegments gen u (map uuid (nodeList st)) st")
  from domainListSegments_inv [OF assms(1,2), of u "map uuid (nodeList st)"] s
  have "registryInv (nodeList st1)" "keepsSecrets (nodeList st) (nodeList st1)"
    by simp_all
  then show ?thesis
    using d s assms(1) by (auto simp: sendDomainListToNode_def)
qed

lemma broadcastNewNode_each_inv:
  assumes "registryInv (nodeList st)" and "\<forall>k. gen k \<noteq> 0"
  shows "registryInv (nodeList (broadcastNewNode_each gen added ns st)) \<and>
         keepsSecrets (nodeList st) (nodeList (broadcastNewNode_each gen added ns st))"
  using assms(1)
proof (induction ns arbitrary: st)
  case Nil
  then show ?case by simp
next
  case (Cons node rest)
  show ?case
  proof (cases "linkedData node \<noteq> None \<and> activeSocket node \<and> uuid node \<noteq> added
         \<and> isInInterestSet (nodeList st) (uuid node) added")
    case False
    then show ?thesis using Cons.IH [OF Cons.prems] by auto
  next
    case True
    obtain secret st1 where c: "connectionSecretForNodes gen (uuid node) added st = (secret, st1)"
      by (cases "connectionSecretForNodes gen (uuid node) added st")
    let ?st2 = "sendPacket (DomainServerAddedNode (uuid node) added secret) st1"
    have i1: "registryInv (nodeList ?st2)"
      using connectionSecretForNodes_inv [OF Cons.prems assms(2), of "uuid node" added] c by simp
    have k1: "keepsSecrets (nodeList st) (nodeList ?st2)"
      using connectionSecretForNodes_keepsSecrets [OF Cons.prems, of gen "uuid node" added] c
      by simp
    have r: "broadcastNewNode_each gen added (node # rest) st =
               broadcastNewNode_each gen added rest ?st2"
      using True c by simp
    from Cons.IH [OF i1] have i2: "registryInv (nodeList (broadcastNewNode_each gen added rest ?st2))"
      and k2: "keepsSecrets (nodeList ?st2) (nodeList (broadcastNewNode_each gen added rest ?st2))"
      by simp_all
    show ?thesis
      unfolding r using i2 keepsSecrets_trans [OF k1 k2] by simp
  qed
qed

subsection \<open>Steps of the registry\<close>

lemma secretOf_append_new:
  assumes "nodeWithUUID nodes (uuid n) = None"
  shows "secretOf (nodes @ [n]) x y =
           (if x = uuid n then
              (case linkedData n of None \<Rightarrow> None | Some d \<Rightarrow> map_of (sessionSecretHash d) y)
            else secretOf nodes x y)"
proof -
  have "nodeWithUUID (nodes @ [n]) x =
          (if x = uuid n then Some n else nodeWithUUID nodes x)"
    using assms by (induction nodes) (auto split: if_splits)
  then show ?thesis
    by (simp add: secretOf_def nodeDataOf_def)
qed

lemma nodeAdded_inv:
  assumes inv: "registryInv (nodeList st)" and new: "nodeWithUUID (nodeList st) (uuid node) = None"
  shows "registryInv (nodeList (nodeAdded node st))"
    and "keepsSecrets (nodeList st) (nodeList (nodeAdded node st))"
    and "nodeWithUUID (nodeList (nodeAdded node st)) (uuid node) \<noteq> None"
proof -
  from inv have dist: "distinct (map uuid (nodeList st))" and linked: "allLinked (nodeList st)"
    and sym: "\<And>x y. secretOf (nodeList st) x y = secretOf (nodeList st) y x"
    and nonnull: "\<And>x y. secretOf (nodeList st) x y \<noteq> Some 0"
    by (simp_all add: registryInv_iff)
  let ?n = "node\<lparr>linkedData := Some newNodeData\<rparr>"
  have new': "nodeWithUUID (nodeList st) (uuid ?n) = None" using new by simp
  have s: "secretOf (nodeList (nodeAdded node st)) x y =
             (if x = uuid node then None else secretOf (nodeList st) x y)" for x y
    using secretOf_append_new [OF new', of x y] by (simp add: nodeAdded_def newNodeData_def)
  have none: "secretOf (nodeList st) x (uuid node) = None" for x
    using sym [of x "uuid node"] new by (simp add: secretOf_not_live)
  show "registryInv (nodeList (nodeAdded node st))"
    unfolding registryInv_iff
  proof (intro conjI allI)
    show "distinct (map uuid (nodeList (nodeAdded node st)))"
      using dist new by (simp add: nodeAdded_def nodeWithUUID_None_iff)
    show "allLinked (nodeList (nodeAdded node st))"
      using linked by (simp add: nodeAdded_def allLinked_def)
    show "secretOf (nodeList (nodeAdded node st)) x y = secretOf (nodeList (nodeAdded node st)) y x"
      for x y
      using sym [of x y] none by (auto simp: s)
    show "secretOf (nodeList (nodeAdded node st)) x y \<noteq> Some 0" for x y
      using nonnull [of x y] by (simp add: s)
  qed
  show "keepsSecrets (nodeList st) (nodeList (nodeAdded node st))"
    unfolding keepsSecrets_def
  proof (intro conjI allI impI)
    show "uuid ` set (nodeList st) \<subseteq> uuid ` set (nodeList (nodeAdded node st))"
      by (auto simp: nodeAdded_def)
    fix x y v assume a: "secretOf (nodeList st) x y = Some v"
    then have "x \<noteq> uuid node"
      using new by (auto simp: secretOf_not_live)
    with a show "secretOf (nodeList (nodeAdded node st)) x y = Some v"
      by (simp add: s)
  qed
  show "nodeWithUUID (nodeList (nodeAdded node st)) (uuid node) \<noteq> None"
    by (simp add: nodeAdded_def nodeWithUUID_None_iff)
qed

lemma uuid_image_modify: "uuid ` set (modifyNodeData u f nodes) = uuid ` set nodes"
  using uuid_modify [of u f nodes] by (metis set_map)

lemma interest_update_inv:
  assumes inv: "registryInv nodes"
    and f: "\<And>d. sessionSecretHash (f d) = sessionSecretHash d"
  shows "registryInv (modifyNodeData u f nodes)"
    and "keepsSecrets nodes (modifyNodeData u f nodes)"
    and "nodeWithUUID (modifyNodeData u f nodes) x \<noteq> None \<longleftrightarrow> nodeWithUUID nodes x \<noteq> None"
proof -
  have s: "secretOf (modifyNodeData u f nodes) x y = secretOf nodes x y" for x y
    unfolding secretOf_modify by (simp add: f secretOf_def split: option.splits)
  show "registryInv (modifyNodeData u f nodes)"
    using inv by (simp add: registryInv_iff s)
  show "keepsSecrets nodes (modifyNodeData u f nodes)"
    by (simp add: keepsSecrets_def s uuid_image_modify)
  show "nodeWithUUID (modifyNodeData u f nodes) x \<noteq> None \<longleftrightarrow> nodeWithUUID nodes x \<noteq> None"
    by (simp add: nodeWithUUID_modify)
qed

lemma keepsSecrets_live:
  "keepsSecrets nodes nodes' \<Longrightarrow> nodeWithUUID nodes x \<noteq> None \<Longrightarrow> nodeWithUUID nodes' x \<noteq> None"
  unfolding keepsSecrets_def nodeWithUUID_None_iff by blast

lemma keepsSecrets_secret:
  "keepsSecrets nodes nodes' \<Longrightarrow> secretOf nodes x y = Some v \<Longrightarrow> secretOf nodes' x y = Some v"
  unfolding keepsSecrets_def by blast

lemma registryStep_concl:
  assumes "r = Some st'" and "registryInv (nodeList st')"
    and "keepsSecrets (nodeList st) (nodeList st')"
  shows "\<exists>st'. r = Some st' \<and> registryInv (nodeList st') \<and>
           (\<forall>x y v. secretOf (nodeList st) x y = Some v \<and> e \<noteq> NodeDies x \<and> e \<noteq> NodeDies y
               \<longrightarrow> secretOf (nodeList st') x y = Some v) \<and>
           (\<forall>x. nodeWithUUID (nodeList st) x \<noteq> None \<and> e \<noteq> NodeDies x
               \<longrightarrow> nodeWithUUID (nodeList st') x \<noteq> None)"
proof (intro exI [of _ st'] conjI allI impI)
  show "r = Some st'" by (rule assms(1))
  show "registryInv (nodeList st')" by (rule assms(2))
next
  fix x y v
  assume "secretOf (nodeList st) x y = Some v \<and> e \<noteq> NodeDies x \<and> e \<noteq> NodeDies y"
  then have "secretOf (nodeList st) x y = Some v" by (rule conjunct1)
  with assms(3) show "secretOf (nodeList st') x y = Some v" by (rule keepsSecrets_secret)
next
  fix x
  assume "nodeWithUUID (nodeList st) x \<noteq> None \<and> e \<noteq> NodeDies x"
  then have "nodeWithUUID (nodeList st) x \<noteq> None" by (rule conjunct1)
  with assms(3) show "nodeWithUUID (nodeList st') x \<noteq> None" by (rule keepsSecrets_live)
qed

lemma registryStep_inv:
  assumes inv: "registryInv (nodeList st)" and gen: "\<forall>k. gen k \<noteq> 0"
  shows "\<exists>st'. registryStep gen e st = Some st' \<and> registryInv (nodeList st') \<and>
           (\<forall>x y v. secretOf (nodeList st) x y = Some v \<and> e \<noteq> NodeDies x \<and> e \<noteq> NodeDies y
               \<longrightarrow> secretOf (nodeList st') x y = Some v) \<and>
           (\<forall>x. nodeWithUUID (nodeList st) x \<noteq> None \<and> e \<noteq> NodeDies x
               \<longrightarrow> nodeWithUUID (nodeList st') x \<noteq> None)"
proof (cases e)
  case (SecretRequested a b)
  have r: "registryStep gen e st = Some (snd (connectionSecretForNodes gen a b st))"
    using SecretRequested by simp
  show ?thesis
    by (rule registryStep_concl [OF r connectionSecretForNodes_inv [OF inv gen]
          connectionSecretForNodes_keepsSecrets [OF inv]])
next
  case (NodeConnects node)
  show ?thesis
  proof (cases "nodeWithUUID (nodeList st) (uuid node) \<noteq> None")
    case True
    with NodeConnects have r: "registryStep gen e st = Some st" by simp
    show ?thesis
      by (rule registryStep_concl [OF r inv keepsSecrets_refl])
  next
    case False
    then have new: "nodeWithUUID (nodeList st) (uuid node) = None" by simp
    let ?st1 = "nodeAdded node st"
    note a = nodeAdded_inv [OF inv new]
    from sendDomainListToNode_inv [OF a(1) gen a(3)] obtain st2 where
      s2: "sendDomainListToNode gen (uuid node) ?st1 = Some st2" "registryInv (nodeList st2)"
        "keepsSecrets (nodeList ?st1) (nodeList st2)"
      by blast
    let ?st3 = "broadcastNewNode gen (uuid node) st2"
    from broadcastNewNode_each_inv [OF s2(2) gen, of "uuid node" "nodeList st2"]
    have s3: "registryInv (nodeList ?st3)" "keepsSecrets (nodeList st2) (nodeList ?st3)"
      by (simp_all add: broadcastNewNode_def)
    have k: "keepsSecrets (nodeList st) (nodeList ?st3)"
      by (rule keepsSecrets_trans [OF keepsSecrets_trans [OF a(2) s2(3)] s3(2)])
    have r: "registryStep gen e st = Some ?st3"
      using NodeConnects new s2(1) by (simp add: handleConnectedNode_def)
    show ?thesis
      by (rule registryStep_concl [OF r s3(1) k])
  qed
next
  case (NodeDies u)
  from killNodeWithUUID_effect [OF inv, of gen u] obtain st' where k:
    "killNodeWithUUID gen u st = Some st'"
    "map uuid (nodeList st') = filter (\<lambda>k. k \<noteq> u) (map uuid (nodeList st))"
    "registryInv (nodeList st')"
    "\<forall>x y. secretOf (nodeList st') x y =
                    (if x = u \<or> y = u then None else secretOf (nodeList st) x y)"
    by blast
  have "set (map uuid (nodeList st')) = set (filter (\<lambda>k. k \<noteq> u) (map uuid (nodeList st)))"
    using k(2) by simp
  then have live: "uuid ` set (nodeList st') = uuid ` set (nodeList st) - {u}"
    by auto
  have l: "nodeWithUUID (nodeList st') x \<noteq> None"
    if "nodeWithUUID (nodeList st) x \<noteq> None" "x \<noteq> u" for x
    using that live by (simp add: nodeWithUUID_None_iff)
  have keep: "secretOf (nodeList st') x y = Some v"
    if "secretOf (nodeList st) x y = Some v" "x \<noteq> u" "y \<noteq> u" for x y v
    using that k(4) by simp
  have r: "registryStep gen e st = Some st'"
    using NodeDies k(1) by simp
  show ?thesis
  proof (intro exI [of _ st'] conjI allI impI)
    show "registryStep gen e st = Some st'" by (rule r)
    show "registryInv (nodeList st')" by (rule k(3))
  next
    fix x y v
    assume "secretOf (nodeList st) x y = Some v \<and> e \<noteq> NodeDies x \<and> e \<noteq> NodeDies y"
    then show "secretOf (nodeList st') x y = Some v"
      using keep [of x y v] NodeDies by auto
  next
    fix x
    assume "nodeWithUUID (nodeList st) x \<noteq> None \<and> e \<noteq> NodeDies x"
    then show "nodeWithUUID (nodeList st') x \<noteq> None"
      using l [of x] NodeDies by auto
  qed
next
  case (ListRequest u interestList place)
  show ?thesis
  proof (cases "nodeWithUUID (nodeList st) u")
    case None
    with ListRequest have r: "registryStep gen e st = Some st" by simp
    show ?thesis
      by (rule registryStep_concl [OF r inv keepsSecrets_refl])
  next
    case (Some sendingNode)
    from inv have "allLinked (nodeList st)" by (simp add: registryInv_iff)
    with Some obtain d where d: "linkedData sendingNode = Some d"
      by (auto simp: allLinked_def dest: nodeWithUUID_in_set)
    define safe where "safe = (if nodeType sendingNode = Agent then set interestList - {Agent}
                     else set interestList)"
    let ?f = "\<lambda>d. d\<lparr>nodeInterestSet := safe, placeName := place\<rparr>"
    let ?st1 = "st\<lparr>nodeList := modifyNodeData u ?f (nodeList st)\<rparr>"
    have i1: "registryInv (nodeList ?st1)" "keepsSecrets (nodeList st) (nodeList ?st1)"
      "nodeWithUUID (nodeList ?st1) u \<noteq> None"
      using interest_update_inv [OF inv, of ?f u] Some by simp_all
    from sendDomainListToNode_inv [OF i1(1) gen i1(3)] obtain st2 where
      s2: "sendDomainListToNode gen u ?st1 = Some st2" "registryInv (nodeList st2)"
        "keepsSecrets (nodeList ?st1) (nodeList st2)"
      by blast
    have r: "registryStep gen e st = Some st2"
      using ListRequest Some d s2(1)
      by (simp add: processListRequestPacket_def safe_def Let_def)
    have k: "keepsSecrets (nodeList st) (nodeList st2)"
      by (rule keepsSecrets_trans [OF i1(2) s2(3)])
    show ?thesis
      by (rule registryStep_concl [OF r s2(2) k])
  qed
qed

subsection \<open>Runs of the registry\<close>

lemma registryRun_inv:
  assumes "registryInv (nodeList st)" and gen: "\<forall>k. gen k \<noteq> 0"
  shows "\<exists>st'. registryRun gen es st = Some st' \<and> registryInv (nodeList st') \<and>
           (\<forall>x y v. secretOf (nodeList st) x y = Some v \<and> NodeDies x \<notin> set es \<and> NodeDies y \<notin> set es
               \<longrightarrow> secretOf (nodeList st') x y = Some v) \<and>
           (\<forall>x. nodeWithUUID (nodeList st) x \<noteq> None \<and> NodeDies x \<notin> set es
               \<longrightarrow> nodeWithUUID (nodeList st') x \<noteq> None)"
  using assms(1)
proof (induction es arbitrary: st)
  case Nil
  then show ?case by simp
next
  case (Cons e es)
  from registryStep_inv [OF Cons.prems gen, of e] obtain st1 where s1:
    "registryStep gen e st = Some st1" "registryInv (nodeList st1)"
    "\<And>x y v. secretOf (nodeList st) x y = Some v \<Longrightarrow> e \<noteq> NodeDies x \<Longrightarrow> e \<noteq> NodeDies y
        \<Longrightarrow> secretOf (nodeList st1) x y = Some v"
    "\<And>x. nodeWithUUID (nodeList st) x \<noteq> None \<Longrightarrow> e \<noteq> NodeDies x
        \<Longrightarrow> nodeWithUUID (nodeList st1) x \<noteq> None"
    by blast
  from Cons.IH [OF s1(2)] obtain st2 where s2:
    "registryRun gen es st1 = Some st2" "registryInv (nodeList st2)"
    "\<And>x y v. secretOf (nodeList st1) x y = Some v \<Longrightarrow> NodeDies x \<notin> set es \<Longrightarrow> NodeDies y \<notin> set es
        \<Longrightarrow> secretOf (nodeList st2) x y = Some v"
    "\<And>x. nodeWithUUID (nodeList st1) x \<noteq> None \<Longrightarrow> NodeDies x \<notin> set es
        \<Longrightarrow> nodeWithUUID (nodeList st2) x \<noteq> None"
    by blast
  show ?case
  proof (intro exI [of _ st2] conjI allI impI)
    show "registryRun gen (e # es) st = Some st2" using s1(1) s2(1) by simp
    show "registryInv (nodeList st2)" by (rule s2(2))
  next
    fix x y v
    assume a: "secretOf (nodeList st) x y = Some v \<and> NodeDies x \<notin> set (e # es)
                 \<and> NodeDies y \<notin> set (e # es)"
    then have "secretOf (nodeList st1) x y = Some v"
      by (intro s1(3)) auto
    then show "secretOf (nodeList st2) x y = Some v"
      using a by (intro s2(3)) auto
  next
    fix x
    assume a: "nodeWithUUID (nodeList st) x \<noteq> None \<and> NodeDies x \<notin> set (e # es)"
    then have "nodeWithUUID (nodeList st1) x \<noteq> None"
      by (intro s1(4)) auto
    then show "nodeWithUUID (nodeList st2) x \<noteq> None"
      using a by (intro s2(4)) auto
  qed
qed

lemma connectionSecretForNodes_stored:
  assumes inv: "registryInv (nodeList st)" and b: "nodeWithUUID (nodeList st) b \<noteq> None"
    and s: "secretOf (nodeList st) a b = Some s"
  shows "connectionSecretForNodes gen a b st = (s, st)"
proof -
  from inv have linked: "allLinked (nodeList st)"
    and nonnull: "\<And>x y. secretOf (nodeList st) x y \<noteq> Some 0"
    by (simp_all add: registryInv_iff)
  have db: "nodeDataOf (nodeList st) b \<noteq> None"
    using linked b by (rule nodeDataOf_allLinked)
  have "s \<noteq> 0" using nonnull [of a b] s by auto
  with db s show ?thesis by (rule connectionSecretForNodes_existing)
qed

text \<open>
  C1. In a registry that satisfies the invariant (unique UUIDs, linked data on every node,
  symmetric non-null secret entries between live nodes only) and with a UUID source that never
  yields the null UUID, let \<open>connectionSecretForNodes\<close> be called for two live nodes A and B.
  The result is non-null; it is the next fresh UUID if A had no entry for B, and the stored
  value with the state unchanged otherwise; afterwards A's hash holds it under B and B's hash
  under A, and the invariant still holds. After any later sequence of registry events in which
  neither A nor B dies, a call for the pair in either order returns that same value and changes
  nothing. When a node dies, no live node's hash has an entry for it any more.
\<close>

theorem connectionSecretForNodes_symmetric_stable:
  assumes inv: "registryInv (nodeList st)" and gen: "\<forall>k. gen k \<noteq> 0"
    and a: "nodeWithUUID (nodeList st) a \<noteq> None" and b: "nodeWithUUID (nodeList st) b \<noteq> None"
    and call: "connectionSecretForNodes gen a b st = (s, st1)"
  shows "s \<noteq> 0 \<and>
         (secretOf (nodeList st) a b = None \<longrightarrow> s = gen (uuidsCreated st)) \<and>
         (\<forall>v. secretOf (nodeList st) a b = Some v \<longrightarrow> s = v \<and> st1 = st) \<and>
         secretOf (nodeList st1) a b = Some s \<and> secretOf (nodeList st1) b a = Some s \<and>
         registryInv (nodeList st1) \<and>
         (\<forall>es. NodeDies a \<notin> set es \<and> NodeDies b \<notin> set es \<longrightarrow>
            (\<exists>st2. registryRun gen es st1 = Some st2 \<and>
                   connectionSecretForNodes gen a b st2 = (s, st2) \<and>
                   connectionSecretForNodes gen b a st2 = (s, st2))) \<and>
         (\<forall>dead. \<exists>st3. killNodeWithUUID gen dead st1 = Some st3 \<and>
            (\<forall>peer. secretOf (nodeList st3) peer dead = None))"
proof -
  note r = connectionSecretForNodes_result [OF inv gen a b]
  have 1: "s \<noteq> 0" using r(1) call by simp
  have 2: "secretOf (nodeList st) a b = None \<longrightarrow> s = gen (uuidsCreated st)"
    using r(4) call by simp
  have 3: "\<forall>v. secretOf (nodeList st) a b = Some v \<longrightarrow> s = v \<and> st1 = st"
    using r(5) call by simp
  have 4: "secretOf (nodeList st1) a b = Some s" using r(2) call by simp
  have 5: "secretOf (nodeList st1) b a = Some s" using r(3) call by simp
  have 6: "registryInv (nodeList st1)"
    using connectionSecretForNodes_inv [OF inv gen, of a b] call by simp
  have live1: "nodeWithUUID (nodeList st1) a \<noteq> None" "nodeWithUUID (nodeList st1) b \<noteq> None"
    using keepsSecrets_live [OF connectionSecretForNodes_keepsSecrets [OF inv, of gen a b]] a b call
    by simp_all
  have 7: "\<forall>es. NodeDies a \<notin> set es \<and> NodeDies b \<notin> set es \<longrightarrow>
            (\<exists>st2. registryRun gen es st1 = Some st2 \<and>
                   connectionSecretForNodes gen a b st2 = (s, st2) \<and>
                   connectionSecretForNodes gen b a st2 = (s, st2))"
  proof (intro allI impI)
    fix es assume n: "NodeDies a \<notin> set es \<and> NodeDies b \<notin> set es"
    from registryRun_inv [OF 6 gen, of es] obtain st2 where s2:
      "registryRun gen es st1 = Some st2" "registryInv (nodeList st2)"
      "\<And>x y v. secretOf (nodeList st1) x y = Some v \<Longrightarrow> NodeDies x \<notin> set es \<Longrightarrow> NodeDies y \<notin> set es
          \<Longrightarrow> secretOf (nodeList st2) x y = Some v"
      "\<And>x. nodeWithUUID (nodeList st1) x \<noteq> None \<Longrightarrow> NodeDies x \<notin> set es
          \<Longrightarrow> nodeWithUUID (nodeList st2) x \<noteq> None"
      by blast
    have ab: "secretOf (nodeList st2) a b = Some s" using s2(3) [OF 4] n by simp
    have ba: "secretOf (nodeList st2) b a = Some s" using s2(3) [OF 5] n by simp
    have la: "nodeWithUUID (nodeList st2) a \<noteq> None" using s2(4) [OF live1(1)] n by simp
    have lb: "nodeWithUUID (nodeList st2) b \<noteq> None" using s2(4) [OF live1(2)] n by simp
    show "\<exists>st2. registryRun gen es st1 = Some st2 \<and>
                   connectionSecretForNodes gen a b st2 = (s, st2) \<and>
                   connectionSecretForNodes gen b a st2 = (s, st2)"
      using s2(1) connectionSecretForNodes_stored [OF s2(2) lb ab]
        connectionSecretForNodes_stored [OF s2(2) la ba]
      by blast
  qed
  have 8: "\<forall>dead. \<exists>st3. killNodeWithUUID gen dead st1 = Some st3 \<and>
            (\<forall>peer. secretOf (nodeList st3) peer dead = None)"
  proof
    fix dead
    from killNodeWithUUID_effect [OF 6, of gen dead] obtain st3 where k:
      "killNodeWithUUID gen dead st1 = Some st3"
      "\<forall>x y. secretOf (nodeList st3) x y =
                    (if x = dead \<or> y = dead then None else secretOf (nodeList st1) x y)"
      by blast
    from k(2) have "\<forall>peer. secretOf (nodeList st3) peer dead = None" by simp
    with k(1) show "\<exists>st3. killNodeWithUUID gen dead st1 = Some st3 \<and>
            (\<forall>peer. secretOf (nodeList st3) peer dead = None)" by blast
  qed
  from 1 2 3 4 5 6 7 8 show ?thesis by blast
qed

lemma oddUuids_nonnull: "oddUuids k \<noteq> 0"
proof
  assume "oddUuids k = 0"
  then have "even (2 * of_nat k + 1 :: 128 word)"
    by (simp add: oddUuids_def)
  then show False by simp
qed

theorem connectionSecretForNodes_symmetric_stable_witness:
  "registryInv (nodeList meetingState) \<and>
   nodeWithUUID (nodeList meetingState) 0xA \<noteq> None \<and>
   nodeWithUUID (nodeList meetingState) 0xC \<noteq> None \<and>
   secretOf (nodeList meetingState) 0xA 0xC = None \<and>
   fst (connectionSecretForNodes oddUuids 0xA 0xC meetingState) = 1 \<and>
   secretOf (nodeList (snd (connectionSecretForNodes oddUuids 0xA 0xC meetingState))) 0xC 0xA
     = Some 1 \<and>
   NodeDies 0xA \<notin> set [ListRequest 0xB [AvatarMixer, Agent] [], NodeDies 0xB] \<and>
   NodeDies 0xC \<notin> set [ListRequest 0xB [AvatarMixer, Agent] [], NodeDies 0xB] \<and>
   (\<exists>st2. registryRun oddUuids [ListRequest 0xB [AvatarMixer, Agent] [], NodeDies 0xB]
             (snd (connectionSecretForNodes oddUuids 0xA 0xC meetingState)) = Some st2 \<and>
          connectionSecretForNodes oddUuids 0xC 0xA st2 = (1, st2)) \<and>
   (\<exists>st3. killNodeWithUUID oddUuids 0xA
             (snd (connectionSecretForNodes oddUuids 0xA 0xC meetingState)) = Some st3 \<and>
          secretOf (nodeList st3) 0xC 0xA = None)"
proof -
  let ?call = "connectionSecretForNodes oddUuids 0xA 0xC meetingState"
  have inv: "registryInv (nodeList meetingState)"
    by (simp add: registryInv_def meetingState_def newNodeData_def)
  have gen: "\<forall>k. oddUuids k \<noteq> 0"
    by (simp add: oddUuids_nonnull)
  have a: "nodeWithUUID (nodeList meetingState) 0xA \<noteq> None"
    and c: "nodeWithUUID (nodeList meetingState) 0xC \<noteq> None"
    by (simp_all add: meetingState_def)
  have none: "secretOf (nodeList meetingState) 0xA 0xC = None"
    by (simp add: secretOf_def nodeDataOf_def meetingState_def newNodeData_def)
  have call: "?call = (fst ?call, snd ?call)"
    by simp
  have g0: "oddUuids (uuidsCreated meetingState) = 1"
    by (simp add: oddUuids_def meetingState_def)
  have n: "NodeDies 0xA \<notin> set [ListRequest 0xB [AvatarMixer, Agent] [], NodeDies 0xB]"
    "NodeDies 0xC \<notin> set [ListRequest 0xB [AvatarMixer, Agent] [], NodeDies 0xB]"
    by simp_all
  note t = connectionSecretForNodes_symmetric_stable [OF inv gen a c call]
  from t none g0 have s: "fst ?call = 1" by simp
  from t have ba: "secretOf (nodeList (snd ?call)) 0xC 0xA = Some (fst ?call)" by blast
  from t have "\<forall>es. NodeDies 0xA \<notin> set es \<and> NodeDies 0xC \<notin> set es \<longrightarrow>
            (\<exists>st2. registryRun oddUuids es (snd ?call) = Some st2 \<and>
                   connectionSecretForNodes oddUuids 0xA 0xC st2 = (fst ?call, st2) \<and>
                   connectionSecretForNodes oddUuids 0xC 0xA st2 = (fst ?call, st2))"
    by blast
  with n have run: "\<exists>st2. registryRun oddUuids [ListRequest 0xB [AvatarMixer, Agent] [], NodeDies 0xB]
             (snd ?call) = Some st2 \<and>
          connectionSecretForNodes oddUuids 0xC 0xA st2 = (fst ?call, st2)"
    by blast
  from t have "\<forall>dead. \<exists>st3. killNodeWithUUID oddUuids dead (snd ?call) = Some st3 \<and>
            (\<forall>peer. secretOf (nodeList st3) peer dead = None)"
    by blast
  then have kill: "\<exists>st3. killNodeWithUUID oddUuids 0xA (snd ?call) = Some st3 \<and>
          secretOf (nodeList st3) 0xC 0xA = None"
    by blast
  from inv a c none s ba n run kill show ?thesis
    by simp
qed

subsection \<open>Who hears about whom\<close>

lemma registryInv_reachable:
  assumes "nodeList st0 = []" and "\<forall>k. gen k \<noteq> 0" and "registryRun gen es st0 = Some st"
  shows "registryInv (nodeList st)"
proof -
  have "registryInv (nodeList st0)"
    using assms(1) by (simp add: registryInv_def)
  from registryRun_inv [OF this assms(2), of es] assms(3) show ?thesis
    by auto
qed


lemma interestOf_modify:
  "interestOf (modifyNodeData u f nodes) x =
     (if x = u then map_option (nodeInterestSet \<circ> f) (nodeDataOf nodes x) else interestOf nodes x)"
  by (simp add: interestOf_def nodeDataOf_modify option.map_comp)

lemma typeOf_modify [simp]: "typeOf (modifyNodeData u f nodes) x = typeOf nodes x"
  by (cases "nodeWithUUID nodes x") (simp_all add: typeOf_def nodeWithUUID_modify)

lemma interestOf_storeSecret [simp]: "interestOf (storeSecret a b s nodes) x = interestOf nodes x"
  by (simp add: storeSecret_def interestOf_modify nodeDataOf_modify interestOf_def
      option.map_comp comp_def)

lemma typeOf_storeSecret [simp]: "typeOf (storeSecret a b s nodes) x = typeOf nodes x"
  by (simp add: storeSecret_def)












section \<open>ICE failover\<close>

lemma sendHeartbeat_plain:
  assumes "iceServerSocket s = Some addr" and "hasPrivateKey s" and "noReplyICEHeartbeats s < 3"
  shows "sendHeartbeatToIceServer pick s =
           Some (s\<lparr>noReplyICEHeartbeats := noReplyICEHeartbeats s + 1,
                   iceEvents := iceEvents s @ [HeartbeatSent addr]\<rparr>)"
  using assms
  by (subst sendHeartbeatToIceServer.simps)
     (simp add: FAILOVER_NO_REPLY_ICE_HEARTBEATS_def sendHeartbeatPacket_def iceEmit_def)

lemma drawnIndex_bound:
  assumes "\<forall>k m. pick k m \<le> m" and "candidates \<noteq> []"
  shows "drawnIndex pick k candidates < length candidates"
proof (cases "length candidates > 1")
  case True
  have "pick k (length candidates - 1) \<le> length candidates - 1" using assms(1) by blast
  with True show ?thesis by (simp add: drawnIndex_def)
next
  case False
  with assms(2) show ?thesis by (simp add: drawnIndex_def)
qed

lemma failoverCandidates_nonempty:
  "addresses \<noteq> [] \<Longrightarrow> failoverCandidates failed addresses \<noteq> []"
  by (simp add: failoverCandidates_def)

lemma randomize_unfold:
  "randomizeICEServerAddress pick trigger s =
     (let s1 = (if trigger then updateICEServerAddresses s else s);
          candidates = failoverCandidates (failedIceServerAddresses s1) (iceServerAddresses s1);
          idx = drawnIndex pick (randomDraws s1) candidates;
          s2 = (if filter (\<lambda>a. a \<notin> failedIceServerAddresses s1) (iceServerAddresses s1) = []
                then s1\<lparr>failedIceServerAddresses := {}\<rparr> else s1);
          s3 = (if length candidates > 1 then s2\<lparr>randomDraws := Suc (randomDraws s2)\<rparr> else s2)
      in if idx < length candidates then
           map_option sendICEServerAddressToMetaverseAPI
             (sendHeartbeatToIceServer pick
                (s3\<lparr>iceServerSocket := Some (candidates ! idx), numHeartbeatDenials := 0\<rparr>))
         else None)"
  by (subst randomizeICEServerAddress.simps)
     (simp add: Let_def failoverCandidates_def drawnIndex_def nat_diff_distrib)

lemma randomize_effect:
  assumes key: "hasPrivateKey s" and cnt: "noReplyICEHeartbeats s < 3"
    and addrs: "iceServerAddresses s \<noteq> []" and pick: "\<forall>k m. pick k m \<le> m"
  defines "candidates \<equiv> failoverCandidates (failedIceServerAddresses s) (iceServerAddresses s)"
  defines "chosen \<equiv> candidates ! drawnIndex pick (randomDraws s) candidates"
  shows "\<exists>s'. randomizeICEServerAddress pick trigger s = Some s' \<and>
           iceServerSocket s' = Some chosen \<and>
           failedIceServerAddresses s' =
             (if filter (\<lambda>a. a \<notin> failedIceServerAddresses s) (iceServerAddresses s) = []
              then {} else failedIceServerAddresses s) \<and>
           iceServerAddresses s' = iceServerAddresses s \<and>
           numHeartbeatDenials s' = 0 \<and>
           noReplyICEHeartbeats s' = noReplyICEHeartbeats s + 1 \<and>
           connectedToICEServer s' = connectedToICEServer s \<and>
           hasPrivateKey s' \<and>
           sendICEServerAddressInProgress s' \<and>
           sendICEServerAddressRedo s' =
             (sendICEServerAddressInProgress s \<or> sendICEServerAddressRedo s) \<and>
           iceEvents s' = iceEvents s
              @ (if trigger \<and> \<not> iceAddressLookupPending s then [HostLookup] else [])
              @ [HeartbeatSent chosen]
              @ (if sendICEServerAddressInProgress s then []
                 else [MetaverseAddressPut (if connectedToICEServer s then chosen else 0)])"
proof -
  define s1 where "s1 = (if trigger then updateICEServerAddresses s else s)"
  define s2 where "s2 = (if filter (\<lambda>a. a \<notin> failedIceServerAddresses s) (iceServerAddresses s) = []
      then s1\<lparr>failedIceServerAddresses := {}\<rparr> else s1)"
  define idx where "idx = drawnIndex pick (randomDraws s) candidates"
  define s3 where "s3 = (if length candidates > 1 then s2\<lparr>randomDraws := Suc (randomDraws s2)\<rparr> else s2)"
  define s4 where "s4 = s3\<lparr>iceServerSocket := Some (candidates ! idx), numHeartbeatDenials := 0\<rparr>"
  define s5 where "s5 = s4\<lparr>noReplyICEHeartbeats := noReplyICEHeartbeats s4 + 1,
                   iceEvents := iceEvents s4 @ [HeartbeatSent (candidates ! idx)]\<rparr>"
  have f1: "failedIceServerAddresses s1 = failedIceServerAddresses s"
    "iceServerAddresses s1 = iceServerAddresses s" "randomDraws s1 = randomDraws s"
    "hasPrivateKey s1 = hasPrivateKey s" "noReplyICEHeartbeats s1 = noReplyICEHeartbeats s"
    "connectedToICEServer s1 = connectedToICEServer s"
    "sendICEServerAddressInProgress s1 = sendICEServerAddressInProgress s"
    "sendICEServerAddressRedo s1 = sendICEServerAddressRedo s"
    "iceEvents s1 = iceEvents s @ (if trigger \<and> \<not> iceAddressLookupPending s then [HostLookup] else [])"
    by (simp_all add: s1_def updateICEServerAddresses_def iceEmit_def)
  have f2: "iceServerAddresses s2 = iceServerAddresses s" "randomDraws s2 = randomDraws s"
    "hasPrivateKey s2 = hasPrivateKey s" "noReplyICEHeartbeats s2 = noReplyICEHeartbeats s"
    "connectedToICEServer s2 = connectedToICEServer s"
    "sendICEServerAddressInProgress s2 = sendICEServerAddressInProgress s"
    "sendICEServerAddressRedo s2 = sendICEServerAddressRedo s"
    "iceEvents s2 = iceEvents s1"
    "failedIceServerAddresses s2 =
       (if filter (\<lambda>a. a \<notin> failedIceServerAddresses s) (iceServerAddresses s) = []
        then {} else failedIceServerAddresses s)"
    by (simp_all add: s2_def f1)
  have f3: "iceServerAddresses s3 = iceServerAddresses s"
    "hasPrivateKey s3 = hasPrivateKey s" "noReplyICEHeartbeats s3 = noReplyICEHeartbeats s"
    "connectedToICEServer s3 = connectedToICEServer s"
    "sendICEServerAddressInProgress s3 = sendICEServerAddressInProgress s"
    "sendICEServerAddressRedo s3 = sendICEServerAddressRedo s"
    "iceEvents s3 = iceEvents s1"
    "failedIceServerAddresses s3 = failedIceServerAddresses s2"
    by (simp_all add: s3_def f2)
  have f4: "iceServerAddresses s4 = iceServerAddresses s"
    "hasPrivateKey s4 = hasPrivateKey s" "noReplyICEHeartbeats s4 = noReplyICEHeartbeats s"
    "connectedToICEServer s4 = connectedToICEServer s"
    "sendICEServerAddressInProgress s4 = sendICEServerAddressInProgress s"
    "sendICEServerAddressRedo s4 = sendICEServerAddressRedo s"
    "iceEvents s4 = iceEvents s1"
    "failedIceServerAddresses s4 = failedIceServerAddresses s2"
    "iceServerSocket s4 = Some (candidates ! idx)" "numHeartbeatDenials s4 = 0"
    by (simp_all add: s4_def f3)
  have f5: "iceServerAddresses s5 = iceServerAddresses s"
    "hasPrivateKey s5 = hasPrivateKey s" "noReplyICEHeartbeats s5 = noReplyICEHeartbeats s + 1"
    "connectedToICEServer s5 = connectedToICEServer s"
    "sendICEServerAddressInProgress s5 = sendICEServerAddressInProgress s"
    "sendICEServerAddressRedo s5 = sendICEServerAddressRedo s"
    "iceEvents s5 = iceEvents s1 @ [HeartbeatSent (candidates ! idx)]"
    "failedIceServerAddresses s5 = failedIceServerAddresses s2"
    "iceServerSocket s5 = Some (candidates ! idx)" "numHeartbeatDenials s5 = 0"
    by (simp_all add: s5_def f4)
  have ne: "candidates \<noteq> []"
    using addrs by (simp add: candidates_def failoverCandidates_nonempty)
  have bound: "idx < length candidates"
    unfolding idx_def using pick ne by (rule drawnIndex_bound)
  have unfold: "randomizeICEServerAddress pick trigger s =
      map_option sendICEServerAddressToMetaverseAPI (sendHeartbeatToIceServer pick s4)"
    using bound
    unfolding randomize_unfold Let_def s1_def [symmetric] f1(1,2,3)
      s4_def s3_def s2_def idx_def candidates_def
    by simp
  have hb: "sendHeartbeatToIceServer pick s4 = Some s5"
    unfolding s5_def
    by (rule sendHeartbeat_plain) (simp_all add: f4 key cnt)
  let ?s' = "sendICEServerAddressToMetaverseAPI s5"
  have r: "randomizeICEServerAddress pick trigger s = Some ?s'"
    by (simp add: unfold hb)
  have g: "iceServerSocket ?s' = iceServerSocket s5"
    "failedIceServerAddresses ?s' = failedIceServerAddresses s5"
    "iceServerAddresses ?s' = iceServerAddresses s5"
    "numHeartbeatDenials ?s' = numHeartbeatDenials s5"
    "noReplyICEHeartbeats ?s' = noReplyICEHeartbeats s5"
    "connectedToICEServer ?s' = connectedToICEServer s5"
    "hasPrivateKey ?s' = hasPrivateKey s5"
    "sendICEServerAddressInProgress ?s'"
    "sendICEServerAddressRedo ?s' =
       (sendICEServerAddressInProgress s5 \<or> sendICEServerAddressRedo s5)"
    "iceEvents ?s' = iceEvents s5 @
       (if sendICEServerAddressInProgress s5 then []
        else [MetaverseAddressPut
                (case iceServerSocket s5 of None \<Rightarrow> 0
                 | Some addr \<Rightarrow> if \<not> connectedToICEServer s5 then 0 else addr)])"
    by (simp_all add: sendICEServerAddressToMetaverseAPI_def iceEmit_def)
  have ch: "candidates ! idx = chosen"
    by (simp add: chosen_def idx_def)
  show ?thesis
    apply (rule exI [of _ ?s'])
    apply (simp only: r g f5 f2 f1 ch key)
    apply simp
    done
qed


lemma failoverCandidates_subset:
  "set (failoverCandidates failed addresses) \<subseteq> set addresses"
  by (auto simp: failoverCandidates_def)

lemma failoverCandidates_not_failed:
  "filter (\<lambda>a. a \<notin> failed) addresses \<noteq> [] \<Longrightarrow>
   set (failoverCandidates failed addresses) \<inter> failed = {}"
  by (auto simp: failoverCandidates_def)

text \<open>
  C2 (as the code has it). Let an ICE server be selected, the private key be present, some
  address be resolved, and three heartbeats have gone unanswered. The next heartbeat tick adds
  the current address to the failed set, clears that set again if no resolved address is left
  outside it, and selects the candidate at the drawn index among the resolved addresses that
  have not failed (among all of them after the clearing). The no-reply counter is reset and
  then counts the heartbeat that goes to the new address at once, so it is one; the denial
  counter is zero; a host lookup is triggered unless one is pending. The connected flag is
  cleared, so the address update made in this tick announces \<open>0.0.0.0\<close> (or nothing, if an
  update is in flight), and a redo is remembered: the new address reaches the metaverse with
  the update that follows the new server's first ACK.
\<close>

theorem sendHeartbeatToIceServer_failover:
  assumes sock: "iceServerSocket s = Some cur" and key: "hasPrivateKey s"
    and cnt: "noReplyICEHeartbeats s = 3"
    and addrs: "iceServerAddresses s \<noteq> []" and pick: "\<forall>k m. pick k m \<le> m"
  defines "failed' \<equiv> insert cur (failedIceServerAddresses s)"
  defines "candidates \<equiv> failoverCandidates failed' (iceServerAddresses s)"
  defines "chosen \<equiv> candidates ! drawnIndex pick (randomDraws s) candidates"
  shows "\<exists>s'. sendHeartbeatToIceServer pick s = Some s' \<and>
           iceServerSocket s' = Some chosen \<and>
           chosen \<in> set (iceServerAddresses s) \<and>
           (filter (\<lambda>a. a \<notin> failed') (iceServerAddresses s) \<noteq> [] \<longrightarrow> chosen \<notin> failed') \<and>
           failedIceServerAddresses s' =
             (if filter (\<lambda>a. a \<notin> failed') (iceServerAddresses s) = [] then {} else failed') \<and>
           noReplyICEHeartbeats s' = 1 \<and>
           numHeartbeatDenials s' = 0 \<and>
           \<not> connectedToICEServer s' \<and>
           sendICEServerAddressInProgress s' \<and> sendICEServerAddressRedo s' \<and>
           iceEvents s' = iceEvents s
              @ (if sendICEServerAddressInProgress s then [] else [MetaverseAddressPut 0])
              @ (if iceAddressLookupPending s then [] else [HostLookup])
              @ [HeartbeatSent chosen, HeartbeatSent chosen] \<and>
           iceEvents (handleSuccessfulICEServerAddressUpdate (processICEServerHeartbeatACK s'))
             = iceEvents s' @ [MetaverseAddressPut chosen]"
proof -
  define s0 where "s0 = sendICEServerAddressToMetaverseAPI
                (s\<lparr>failedIceServerAddresses := insert cur (failedIceServerAddresses s),
                    iceServerSocket := None,
                    noReplyICEHeartbeats := 0,
                    connectedToICEServer := False\<rparr>)"
  have f0: "failedIceServerAddresses s0 = failed'" "iceServerAddresses s0 = iceServerAddresses s"
    "randomDraws s0 = randomDraws s" "iceAddressLookupPending s0 = iceAddressLookupPending s"
    "hasPrivateKey s0" "noReplyICEHeartbeats s0 = 0" "\<not> connectedToICEServer s0"
    "sendICEServerAddressInProgress s0"
    "iceEvents s0 = iceEvents s
       @ (if sendICEServerAddressInProgress s then [] else [MetaverseAddressPut 0])"
    using sock key
    by (simp_all add: s0_def sendICEServerAddressToMetaverseAPI_def iceEmit_def failed'_def)
  have c0: "noReplyICEHeartbeats s0 < 3" by (simp add: f0)
  have a0: "iceServerAddresses s0 \<noteq> []" using addrs by (simp add: f0)
  define cand0 where
    "cand0 = failoverCandidates (failedIceServerAddresses s0) (iceServerAddresses s0)"
  have cand0: "cand0 = candidates"
    by (simp add: cand0_def candidates_def f0)
  from randomize_effect [OF f0(5) c0 a0 pick, of True, folded cand0_def] obtain s1 where raw:
    "randomizeICEServerAddress pick True s0 = Some s1"
    "iceServerSocket s1 = Some (cand0 ! drawnIndex pick (randomDraws s0) cand0)"
    "failedIceServerAddresses s1 =
       (if filter (\<lambda>a. a \<notin> failedIceServerAddresses s0) (iceServerAddresses s0) = []
        then {} else failedIceServerAddresses s0)"
    "numHeartbeatDenials s1 = 0"
    "noReplyICEHeartbeats s1 = noReplyICEHeartbeats s0 + 1"
    "connectedToICEServer s1 = connectedToICEServer s0"
    "sendICEServerAddressInProgress s1"
    "sendICEServerAddressRedo s1 =
       (sendICEServerAddressInProgress s0 \<or> sendICEServerAddressRedo s0)"
    "iceEvents s1 = iceEvents s0
        @ (if True \<and> \<not> iceAddressLookupPending s0 then [HostLookup] else [])
        @ [HeartbeatSent (cand0 ! drawnIndex pick (randomDraws s0) cand0)]
        @ (if sendICEServerAddressInProgress s0 then []
           else [MetaverseAddressPut (if connectedToICEServer s0
                   then cand0 ! drawnIndex pick (randomDraws s0) cand0 else 0)])"
    by blast
  have ch: "cand0 ! drawnIndex pick (randomDraws s) cand0 = chosen"
    by (simp add: cand0 chosen_def)
  have s1: "randomizeICEServerAddress pick True s0 = Some s1"
    "iceServerSocket s1 = Some chosen"
    "failedIceServerAddresses s1 =
       (if filter (\<lambda>a. a \<notin> failed') (iceServerAddresses s) = [] then {} else failed')"
    "numHeartbeatDenials s1 = 0" "noReplyICEHeartbeats s1 = 1"
    "\<not> connectedToICEServer s1"
    "sendICEServerAddressInProgress s1" "sendICEServerAddressRedo s1"
    "iceEvents s1 = iceEvents s0 @ (if iceAddressLookupPending s then [] else [HostLookup])
        @ [HeartbeatSent chosen]"
    using raw by (simp_all add: ch f0)
  let ?s' = "sendHeartbeatPacket s1"
  have r: "sendHeartbeatToIceServer pick s = Some ?s'"
    using sock key cnt s1(1)
    by (subst sendHeartbeatToIceServer.simps)
       (simp add: FAILOVER_NO_REPLY_ICE_HEARTBEATS_def s0_def [symmetric])
  have g: "iceServerSocket ?s' = Some chosen"
    "failedIceServerAddresses ?s' = failedIceServerAddresses s1"
    "numHeartbeatDenials ?s' = 0" "noReplyICEHeartbeats ?s' = 1"
    "\<not> connectedToICEServer ?s'"
    "sendICEServerAddressInProgress ?s'" "sendICEServerAddressRedo ?s'"
    "iceEvents ?s' = iceEvents s1 @ [HeartbeatSent chosen]"
    using s1 by (simp_all add: sendHeartbeatPacket_def iceEmit_def)
  have ne: "candidates \<noteq> []"
    using addrs by (simp add: candidates_def failoverCandidates_nonempty)
  have "drawnIndex pick (randomDraws s) candidates < length candidates"
    using pick ne by (rule drawnIndex_bound)
  then have mem: "chosen \<in> set candidates"
    by (simp add: chosen_def)
  have m1: "chosen \<in> set (iceServerAddresses s)"
    using mem failoverCandidates_subset [of failed' "iceServerAddresses s"]
    by (auto simp: candidates_def)
  have m2: "filter (\<lambda>a. a \<notin> failed') (iceServerAddresses s) \<noteq> [] \<longrightarrow> chosen \<notin> failed'"
    using mem failoverCandidates_not_failed [of failed' "iceServerAddresses s"]
    by (auto simp: candidates_def)
  have ack: "iceEvents (handleSuccessfulICEServerAddressUpdate (processICEServerHeartbeatACK ?s'))
             = iceEvents ?s' @ [MetaverseAddressPut chosen]"
    using g
    by (simp add: processICEServerHeartbeatACK_def handleSuccessfulICEServerAddressUpdate_def
        sendICEServerAddressToMetaverseAPI_def iceEmit_def Let_def)
  show ?thesis
  proof (intro exI [of _ ?s'] conjI)
    show "sendHeartbeatToIceServer pick s = Some ?s'" by (rule r)
    show "iceServerSocket ?s' = Some chosen" by (rule g(1))
    show "chosen \<in> set (iceServerAddresses s)" by (rule m1)
    show "filter (\<lambda>a. a \<notin> failed') (iceServerAddresses s) \<noteq> [] \<longrightarrow> chosen \<notin> failed'"
      by (rule m2)
    show "failedIceServerAddresses ?s' =
             (if filter (\<lambda>a. a \<notin> failed') (iceServerAddresses s) = [] then {} else failed')"
      by (simp only: g(2) s1(3))
    show "noReplyICEHeartbeats ?s' = 1" by (rule g(4))
    show "numHeartbeatDenials ?s' = 0" by (rule g(3))
    show "\<not> connectedToICEServer ?s'" by (rule g(5))
    show "sendICEServerAddressInProgress ?s'" by (rule g(6))
    show "sendICEServerAddressRedo ?s'" by (rule g(7))
    show "iceEvents ?s' = iceEvents s
              @ (if sendICEServerAddressInProgress s then [] else [MetaverseAddressPut 0])
              @ (if iceAddressLookupPending s then [] else [HostLookup])
              @ [HeartbeatSent chosen, HeartbeatSent chosen]"
      by (simp add: g(8) s1(9) f0(9))
    show "iceEvents (handleSuccessfulICEServerAddressUpdate (processICEServerHeartbeatACK ?s'))
             = iceEvents ?s' @ [MetaverseAddressPut chosen]"
      by (rule ack)
  qed
qed

text \<open>
  C2 as stated fails: in the tick that follows three unanswered heartbeats the engine moves
  from \<open>10.0.0.1\<close> to \<open>10.0.0.2\<close>, but the only address update it sends to the metaverse
  carries \<open>0.0.0.0\<close>, not the new address, and the no-reply counter ends at one, not zero.
\<close>

theorem failover_announces_no_address_counterexample:
  "map_option iceEvents (sendHeartbeatToIceServer drawsZero iceUnanswered) =
     Some [MetaverseAddressPut 0, HostLookup,
           HeartbeatSent 0x0A000002, HeartbeatSent 0x0A000002] \<and>
   map_option iceServerSocket (sendHeartbeatToIceServer drawsZero iceUnanswered)
     = Some (Some 0x0A000002) \<and>
   map_option noReplyICEHeartbeats (sendHeartbeatToIceServer drawsZero iceUnanswered) = Some 1"
  by (simp add: sendHeartbeatToIceServer.simps randomizeICEServerAddress.simps
      iceUnanswered_def iceConnected_def drawsZero_def FAILOVER_NO_REPLY_ICE_HEARTBEATS_def
      sendICEServerAddressToMetaverseAPI_def updateICEServerAddresses_def iceEmit_def
      sendHeartbeatPacket_def isNull_def Let_def)

theorem sendHeartbeatToIceServer_failover_witness:
  "iceServerSocket iceUnanswered = Some 0x0A000001 \<and> hasPrivateKey iceUnanswered \<and>
   noReplyICEHeartbeats iceUnanswered = 3 \<and> iceServerAddresses iceUnanswered \<noteq> [] \<and>
   (\<forall>k m. drawsZero k m \<le> m) \<and>
   filter (\<lambda>a. a \<notin> insert 0x0A000001 (failedIceServerAddresses iceUnanswered))
     (iceServerAddresses iceUnanswered) \<noteq> [] \<and>
   (\<exists>s'. sendHeartbeatToIceServer drawsZero iceUnanswered = Some s' \<and>
      iceServerSocket s' = Some 0x0A000002 \<and>
      failedIceServerAddresses s' = {0x0A000001} \<and>
      noReplyICEHeartbeats s' = 1 \<and>
      iceEvents (handleSuccessfulICEServerAddressUpdate (processICEServerHeartbeatACK s'))
        = iceEvents s' @ [MetaverseAddressPut 0x0A000002])"
proof -
  have h: "iceServerSocket iceUnanswered = Some 0x0A000001" "hasPrivateKey iceUnanswered"
    "noReplyICEHeartbeats iceUnanswered = 3" "iceServerAddresses iceUnanswered \<noteq> []"
    "\<forall>k m. drawsZero k m \<le> m"
    by (simp_all add: iceUnanswered_def iceConnected_def drawsZero_def)
  define failed' where "failed' = insert 0x0A000001 (failedIceServerAddresses iceUnanswered)"
  define candidates where "candidates = failoverCandidates failed' (iceServerAddresses iceUnanswered)"
  define chosen where "chosen = candidates ! drawnIndex drawsZero (randomDraws iceUnanswered) candidates"
  have c: "chosen = 0x0A000002" "failed' = {0x0A000001}"
    "filter (\<lambda>a. a \<notin> failed') (iceServerAddresses iceUnanswered) \<noteq> []"
    by (simp_all add: chosen_def candidates_def failed'_def iceUnanswered_def iceConnected_def
        failoverCandidates_def drawnIndex_def drawsZero_def)
  from sendHeartbeatToIceServer_failover [OF h, folded failed'_def, folded candidates_def,
      folded chosen_def]
  obtain s' where s: "sendHeartbeatToIceServer drawsZero iceUnanswered = Some s'"
    "iceServerSocket s' = Some chosen"
    "failedIceServerAddresses s' =
       (if filter (\<lambda>a. a \<notin> failed') (iceServerAddresses iceUnanswered) = [] then {} else failed')"
    "noReplyICEHeartbeats s' = 1"
    "iceEvents (handleSuccessfulICEServerAddressUpdate (processICEServerHeartbeatACK s'))
        = iceEvents s' @ [MetaverseAddressPut chosen]"
    by blast
  have e: "\<exists>s'. sendHeartbeatToIceServer drawsZero iceUnanswered = Some s' \<and>
      iceServerSocket s' = Some 0x0A000002 \<and>
      failedIceServerAddresses s' = {0x0A000001} \<and>
      noReplyICEHeartbeats s' = 1 \<and>
      iceEvents (handleSuccessfulICEServerAddressUpdate (processICEServerHeartbeatACK s'))
        = iceEvents s' @ [MetaverseAddressPut 0x0A000002]"
  proof (intro exI [of _ s'] conjI)
    show "sendHeartbeatToIceServer drawsZero iceUnanswered = Some s'" by (rule s(1))
    show "iceServerSocket s' = Some 0x0A000002" using s(2) by (simp add: c(1))
    show "failedIceServerAddresses s' = {0x0A000001}" using s(3) c(3) by (simp add: c(2))
    show "noReplyICEHeartbeats s' = 1" by (rule s(4))
    show "iceEvents (handleSuccessfulICEServerAddressUpdate (processICEServerHeartbeatACK s'))
        = iceEvents s' @ [MetaverseAddressPut 0x0A000002]" using s(5) by (simp add: c(1))
  qed
  have f: "filter (\<lambda>a. a \<notin> insert 0x0A000001 (failedIceServerAddresses iceUnanswered))
     (iceServerAddresses iceUnanswered) \<noteq> []"
    by (simp add: iceUnanswered_def iceConnected_def)
  from h f e show ?thesis
    by blast
qed

section \<open>Entities file replacement\<close>

text \<open>
  C8 as stated fails: the header of the replacement file parses and the file can be deleted,
  but the entities file cannot be opened for writing; the replacement file is gone and the
  authoritative file still holds the old scene. And when the entities file opens but the
  write fails at once, the replacement file is gone and the authoritative file is empty.
\<close>

theorem replacement_lost_when_entities_unwritable_counterexample:
  "readOctreeDataInfoFromFile toyCodec (replacementFile readOnlyEntities) =
     Some \<lparr>entityId = 7, entityVersion = 3, entityPayload = ''{new}''\<rparr> \<and>
   maybeHandleReplacementEntityFile toyCodec 9 readOnlyEntities =
     readOnlyEntities\<lparr>replacementFile := None\<rparr> \<and>
   entitiesFile (maybeHandleReplacementEntityFile toyCodec 9 readOnlyEntities) = Some ''Z{old}'' \<and>
   maybeHandleReplacementEntityFile toyCodec 9
       (readOnlyEntities\<lparr>canOpenEntities := True, entitiesWriteFailsAfter := Some 0\<rparr>) =
     readOnlyEntities\<lparr>canOpenEntities := True, entitiesWriteFailsAfter := Some 0,
                       replacementFile := None, entitiesFile := Some []\<rparr>"
  by (simp add: maybeHandleReplacementEntityFile_def readOctreeDataInfoFromFile_def
      toyCodec_def readOnlyEntities_def written_def Let_def)

text \<open>
  C8 (as the code has it). At startup: if the replacement file is missing or its header does
  not parse, nothing changes; if it parses but the file cannot be removed, nothing changes; if
  it parses and is removed, then the entities file is left as it was when it cannot be opened
  for writing; when it opens it is truncated and the gzipped scene with a fresh id and the
  initial version is written to it, so that it holds the whole scene if the write completes
  and only the first \<open>k\<close> bytes if the write fails after \<open>k\<close> bytes.
\<close>

theorem maybeHandleReplacementEntityFile_cases:
  "(readOctreeDataInfoFromFile codec (replacementFile fs) = None \<longrightarrow>
      maybeHandleReplacementEntityFile codec newId fs = fs) \<and>
   (readOctreeDataInfoFromFile codec (replacementFile fs) = Some entityData \<longrightarrow>
      (\<not> canRemoveReplacement fs \<longrightarrow>
         maybeHandleReplacementEntityFile codec newId fs = fs) \<and>
      (canRemoveReplacement fs \<and> canOpenEntities fs \<and> entitiesWriteFailsAfter fs = None \<longrightarrow>
         maybeHandleReplacementEntityFile codec newId fs =
           fs\<lparr>replacementFile := None,
              entitiesFile :=
                Some (gzip codec (toByteArray codec
                  (entityData\<lparr>entityId := newId, entityVersion := INITIAL_VERSION codec\<rparr>)))\<rparr>) \<and>
      (canRemoveReplacement fs \<and> canOpenEntities fs \<and> entitiesWriteFailsAfter fs = Some k \<longrightarrow>
         maybeHandleReplacementEntityFile codec newId fs =
           fs\<lparr>replacementFile := None,
              entitiesFile :=
                Some (take k (gzip codec (toByteArray codec
                  (entityData\<lparr>entityId := newId, entityVersion := INITIAL_VERSION codec\<rparr>))))\<rparr>) \<and>
      (canRemoveReplacement fs \<and> \<not> canOpenEntities fs \<longrightarrow>
         maybeHandleReplacementEntityFile codec newId fs = fs\<lparr>replacementFile := None\<rparr>))"
  by (simp add: maybeHandleReplacementEntityFile_def toGzippedByteArray_def
      resetIdAndVersion_def written_def Let_def)

theorem maybeHandleReplacementEntityFile_cases_witness:
  "readOctreeDataInfoFromFile toyCodec (replacementFile (readOnlyEntities\<lparr>canOpenEntities := True\<rparr>))
     = Some \<lparr>entityId = 7, entityVersion = 3, entityPayload = ''{new}''\<rparr> \<and>
   canRemoveReplacement (readOnlyEntities\<lparr>canOpenEntities := True\<rparr>) \<and>
   canOpenEntities (readOnlyEntities\<lparr>canOpenEntities := True\<rparr>) \<and>
   entitiesWriteFailsAfter (readOnlyEntities\<lparr>canOpenEntities := True\<rparr>) = None \<and>
   maybeHandleReplacementEntityFile toyCodec 9 (readOnlyEntities\<lparr>canOpenEntities := True\<rparr>) =
     readOnlyEntities\<lparr>canOpenEntities := True, replacementFile := None,
                       entitiesFile := Some ''Z{new}''\<rparr> \<and>
   maybeHandleReplacementEntityFile toyCodec 9
       (readOnlyEntities\<lparr>canOpenEntities := True, entitiesWriteFailsAfter := Some 3\<rparr>) =
     readOnlyEntities\<lparr>canOpenEntities := True, entitiesWriteFailsAfter := Some 3,
                       replacementFile := None, entitiesFile := Some ''Z{n''\<rparr> \<and>
   readOctreeDataInfoFromFile toyCodec (replacementFile (readOnlyEntities\<lparr>replacementFile := Some ''junk''\<rparr>))
     = None \<and>
   maybeHandleReplacementEntityFile toyCodec 9 (readOnlyEntities\<lparr>replacementFile := Some ''junk''\<rparr>)
     = readOnlyEntities\<lparr>replacementFile := Some ''junk''\<rparr> \<and>
   \<not> canRemoveReplacement (readOnlyEntities\<lparr>canRemoveReplacement := False\<rparr>) \<and>
   maybeHandleReplacementEntityFile toyCodec 9 (readOnlyEntities\<lparr>canRemoveReplacement := False\<rparr>)
     = readOnlyEntities\<lparr>canRemoveReplacement := False\<rparr>"
proof -
  let ?d = "\<lparr>entityId = 7, entityVersion = 3, entityPayload = ''{new}''\<rparr>"
  let ?short = "readOnlyEntities\<lparr>canOpenEntities := True, entitiesWriteFailsAfter := Some 3\<rparr>"
  have r: "readOctreeDataInfoFromFile toyCodec (replacementFile (readOnlyEntities\<lparr>canOpenEntities := True\<rparr>))
     = Some ?d"
    "readOctreeDataInfoFromFile toyCodec (replacementFile ?short) = Some ?d"
    "readOctreeDataInfoFromFile toyCodec (replacementFile (readOnlyEntities\<lparr>canRemoveReplacement := False\<rparr>))
     = Some ?d"
    "readOctreeDataInfoFromFile toyCodec (replacementFile (readOnlyEntities\<lparr>replacementFile := Some ''junk''\<rparr>))
     = None"
    by (simp_all add: readOctreeDataInfoFromFile_def toyCodec_def readOnlyEntities_def)
  have f: "canRemoveReplacement (readOnlyEntities\<lparr>canOpenEntities := True\<rparr>)"
    "canOpenEntities (readOnlyEntities\<lparr>canOpenEntities := True\<rparr>)"
    "entitiesWriteFailsAfter (readOnlyEntities\<lparr>canOpenEntities := True\<rparr>) = None"
    "canRemoveReplacement ?short" "canOpenEntities ?short"
    "entitiesWriteFailsAfter ?short = Some 3"
    "\<not> canRemoveReplacement (readOnlyEntities\<lparr>canRemoveReplacement := False\<rparr>)"
    by (simp_all add: readOnlyEntities_def)
  have g: "gzip toyCodec (toByteArray toyCodec
             \<lparr>entityId = 9, entityVersion = INITIAL_VERSION toyCodec, entityPayload = ''{new}''\<rparr>)
             = ''Z{new}''"
    by (simp add: toyCodec_def)
  from maybeHandleReplacementEntityFile_cases
         [of toyCodec "readOnlyEntities\<lparr>canOpenEntities := True\<rparr>" 9 ?d 0]
       maybeHandleReplacementEntityFile_cases [of toyCodec ?short 9 ?d 3]
       maybeHandleReplacementEntityFile_cases
         [of toyCodec "readOnlyEntities\<lparr>replacementFile := Some ''junk''\<rparr>" 9 ?d 0]
       maybeHandleReplacementEntityFile_cases
         [of toyCodec "readOnlyEntities\<lparr>canRemoveReplacement := False\<rparr>" 9 ?d 0]
       r f
  show ?thesis
    by (simp add: g)
qed

section \<open>Authentication of HTTP requests\<close>


lemma split_nonempty: "split sep s \<noteq> []"
  by (induction s) (auto split: list.splits)

lemma split_Nil: "split sep [] = [[]]"
  by simp

















end
